theory Spec2Isabelle
  imports Main
begin

section \<open>Decoded JSON values and the Python operations the handlers use on them\<close>

text \<open>
  The webhook handlers of \<^verbatim>\<open>main.py\<close> receive \<^verbatim>\<open>dict\<close> objects decoded from JSON. A
  dictionary is an association list read with \<open>map_of\<close>. Numbers are integers: the handlers
  only test a number for truth, which a float passes or fails like an integer.
\<close>

datatype json =
    JNull
  | JBool bool
  | JNum int
  | JStr string
  | JList "json list"
  | JDict "(string \<times> json) list"

type_synonym pydict = "(string \<times> json) list"

text \<open>Python's truth value: \<^verbatim>\<open>not x\<close> is \<open>\<not> truthy x\<close>.\<close>

fun truthy :: "json \<Rightarrow> bool" where
  "truthy JNull = False"
| "truthy (JBool b) = b"
| "truthy (JNum n) = (n \<noteq> 0)"
| "truthy (JStr s) = (s \<noteq> [])"
| "truthy (JList xs) = (xs \<noteq> [])"
| "truthy (JDict kvs) = (kvs \<noteq> [])"

text \<open>\<^verbatim>\<open>d.get(k)\<close>: \<^verbatim>\<open>None\<close> when the key is absent.\<close>

definition dict_get :: "pydict \<Rightarrow> string \<Rightarrow> json" where
  "dict_get d k = (case map_of d k of None \<Rightarrow> JNull | Some v \<Rightarrow> v)"

text \<open>\<^verbatim>\<open>a or b\<close>.\<close>

definition py_or :: "json \<Rightarrow> json \<Rightarrow> json" where
  "py_or a b = (if truthy a then a else b)"

text \<open>
  Two operations depend on the Python runtime and on the database driver rather than on this
  repository: \<^verbatim>\<open>str(v)\<close> of a value that is not a string, and the text a driver compares
  or stores when a number or a boolean meets a text column (\<open>None\<close>: the driver refuses the
  value and the query raises). They are parameters of the model; every theorem holds for all
  of them. On strings both are the identity, \<^verbatim>\<open>str(None)\<close> is \<^verbatim>\<open>'None'\<close>, and no driver
  binds a list or a dictionary to a text column: the query raises.
\<close>

record platform =
  str_other :: "json \<Rightarrow> string"
  sql_text_other :: "json \<Rightarrow> string option"

definition py_str :: "platform \<Rightarrow> json \<Rightarrow> string" where
  "py_str pf v = (case v of JStr s \<Rightarrow> s | JNull \<Rightarrow> ''None'' | _ \<Rightarrow> str_other pf v)"

definition sql_text :: "platform \<Rightarrow> json \<Rightarrow> string option" where
  "sql_text pf v =
     (case v of
        JStr s \<Rightarrow> Some s
      | JList xs \<Rightarrow> None
      | JDict kvs \<Rightarrow> None
      | _ \<Rightarrow> sql_text_other pf v)"

datatype error =
    AttributeError string
  | ValueError string
  | OverflowError
  | DriverError
  | HTTPException int string

section \<open>Strings: \<^verbatim>\<open>strip\<close> and \<^verbatim>\<open>lower\<close>\<close>

text \<open>
  A \<open>char\<close> is a code point below 256. \<^verbatim>\<open>str.strip()\<close> removes the characters for which
  \<^verbatim>\<open>isspace()\<close> holds; \<^verbatim>\<open>str.lower()\<close> maps the upper-case letters of that range.
\<close>

definition py_isspace :: "char \<Rightarrow> bool" where
  "py_isspace c = (let n = (of_char c :: nat) in
     (9 \<le> n \<and> n \<le> 13) \<or> (28 \<le> n \<and> n \<le> 32) \<or> n = 133 \<or> n = 160)"

definition py_strip :: "string \<Rightarrow> string" where
  "py_strip s = rev (dropWhile py_isspace (rev (dropWhile py_isspace s)))"

definition lower_char :: "char \<Rightarrow> char" where
  "lower_char c = (let n = (of_char c :: nat) in
     if (65 \<le> n \<and> n \<le> 90) \<or> (192 \<le> n \<and> n \<le> 222 \<and> n \<noteq> 215)
     then char_of (n + 32) else c)"

definition py_lower :: "string \<Rightarrow> string" where
  "py_lower s = map lower_char s"

section \<open>\<^verbatim>\<open>models.py\<close>: the tables\<close>

datatype MessageStatus = QUEUED | SENT | DELIVERED | READ | FAILED

text \<open>
  Columns carry a prefix where two tables share a column name. Identifiers and counters are
  Python integers; a \<^verbatim>\<open>DateTime\<close> is a clock reading.
\<close>

record Member =
  mb_id :: int
  mb_phone_number :: string
  mb_status :: "string option"
  mb_city :: "string option"
  mb_plan :: "string option"
  mb_is_opted_in :: bool

record Campaign =
  c_id :: int
  c_name :: string
  c_template_name :: string
  c_description :: "string option"
  target_count :: int
  sent_count :: int
  delivered_count :: int
  read_count :: int
  failed_count :: int
  c_status_filter :: "string option"
  c_plan_filter :: "string option"
  c_city_filter :: "string option"
  c_expiry_days_filter :: "int option"
  c_status :: string
  c_created_at :: nat
  c_sent_at :: "nat option"

record Message =
  msg_id :: int
  msg_campaign_id :: int
  msg_member_id :: int
  msg_status :: MessageStatus
  msg_template_name :: "string option"
  whatsapp_message_id :: "string option"
  error_message :: "string option"
  msg_created_at :: nat
  msg_sent_at :: "nat option"
  delivered_at :: "nat option"
  read_at :: "nat option"

record Response =
  r_id :: int
  r_message_id :: int
  r_member_id :: int
  r_campaign_id :: "int option"
  response_type :: "string option"
  button_title :: "string option"
  button_id :: "string option"
  received_at :: nat

record OptOut =
  o_id :: int
  o_member_id :: "int option"
  o_phone_number :: string
  reason :: "string option"
  o_created_at :: nat

text \<open>The committed database: each table is the list of its rows in insertion order.\<close>

record db =
  members :: "Member list"
  campaigns :: "Campaign list"
  messages :: "Message list"
  responses :: "Response list"
  optouts :: "OptOut list"

text \<open>
  An integer primary key that the code leaves unset is assigned by the database: one more
  than the largest key of the table, 1 for an empty table.
\<close>

definition next_id :: "int list \<Rightarrow> int" where
  "next_id ids = fold max ids 0 + 1"

text \<open>\<^verbatim>\<open>query(...).filter(column == value).first()\<close>: the first matching row, or \<^verbatim>\<open>None\<close>.\<close>

definition find_campaign :: "db \<Rightarrow> int \<Rightarrow> Campaign option" where
  "find_campaign d cid = find (\<lambda>c. c_id c = cid) (campaigns d)"

text \<open>
  An integer column holds a signed 64-bit value, and the driver raises \<^verbatim>\<open>OverflowError\<close>
  when it is asked to bind any other integer. Keys read from a row fit; the campaign id of
  the dispatch endpoint is a path parameter, any integer. \<open>query_campaign\<close> is the query
  by such an id: a stored key fits, so an id that matches a row was bound, and an id that
  matches none is refused when it does not fit.
\<close>

definition int64 :: "int \<Rightarrow> bool" where
  "int64 i \<longleftrightarrow> - (2 ^ 63) \<le> i \<and> i < 2 ^ 63"

definition query_campaign :: "db \<Rightarrow> int \<Rightarrow> error + Campaign option" where
  "query_campaign d cid =
     (case find_campaign d cid of
        Some c \<Rightarrow> Inr (Some c)
      | None \<Rightarrow> if int64 cid then Inr None else Inl OverflowError)"

definition find_member :: "db \<Rightarrow> int \<Rightarrow> Member option" where
  "find_member d mid = find (\<lambda>m. mb_id m = mid) (members d)"

definition find_member_by_phone :: "db \<Rightarrow> string \<Rightarrow> Member option" where
  "find_member_by_phone d phone = find (\<lambda>m. mb_phone_number m = phone) (members d)"

definition find_message_by_wamid :: "db \<Rightarrow> string \<Rightarrow> Message option" where
  "find_message_by_wamid d w = find (\<lambda>m. whatsapp_message_id m = Some w) (messages d)"

text \<open>An attribute assignment on a loaded row, written back by primary key at commit.\<close>

definition write_message :: "int \<Rightarrow> (Message \<Rightarrow> Message) \<Rightarrow> db \<Rightarrow> db" where
  "write_message i f d = d\<lparr>messages := map (\<lambda>m. if msg_id m = i then f m else m) (messages d)\<rparr>"

definition write_campaign :: "int \<Rightarrow> (Campaign \<Rightarrow> Campaign) \<Rightarrow> db \<Rightarrow> db" where
  "write_campaign i f d = d\<lparr>campaigns := map (\<lambda>c. if c_id c = i then f c else c) (campaigns d)\<rparr>"

definition write_member :: "int \<Rightarrow> (Member \<Rightarrow> Member) \<Rightarrow> db \<Rightarrow> db" where
  "write_member i f d = d\<lparr>members := map (\<lambda>m. if mb_id m = i then f m else m) (members d)\<rparr>"

section \<open>\<^verbatim>\<open>utils.py\<close>\<close>

definition stop_words :: "string list" where
  "stop_words = [''stop'', ''unsubscribe'', ''cancel'', ''end'', ''quit'']"

text \<open>
  \<^verbatim>\<open>is_stop_command(text)\<close>. The caller passes whatever the payload holds under
  \<^verbatim>\<open>text.body\<close>: a value that is true and not a string has no \<^verbatim>\<open>strip\<close>.
\<close>

definition is_stop_command :: "json \<Rightarrow> error + bool" where
  "is_stop_command text =
     (if \<not> truthy text then Inr False
      else case text of
        JStr s \<Rightarrow> Inr (py_lower (py_strip s) \<in> set stop_words)
      | _ \<Rightarrow> Inl (AttributeError ''strip''))"

record status_info =
  info_whatsapp_message_id :: json
  info_status :: json
  info_error :: json

definition extract_message_status :: "pydict \<Rightarrow> status_info option" where
  "extract_message_status status_data =
     (if status_data = [] then None
      else
        let message_id = dict_get status_data ''id'';
            status = dict_get status_data ''status'';
            errors = dict_get status_data ''errors''
        in if \<not> truthy message_id \<or> \<not> truthy status then None
           else
             let err = (case errors of JList (e # es) \<Rightarrow> e | _ \<Rightarrow> JNull)
             in Some \<lparr>info_whatsapp_message_id = message_id, info_status = status,
                      info_error = err\<rparr>)"

record button_payload =
  p_response_type :: string
  p_button_id :: string
  p_button_title :: string

text \<open>
  \<^verbatim>\<open>(d.get(k) or {})\<close> followed by \<^verbatim>\<open>.get\<close>: the value must be false or a dictionary.
\<close>

definition dict_or_empty :: "json \<Rightarrow> error + pydict" where
  "dict_or_empty v =
     (if \<not> truthy v then Inr []
      else case v of JDict kvs \<Rightarrow> Inr kvs | _ \<Rightarrow> Inl (AttributeError ''get''))"

definition reply_payload ::
  "platform \<Rightarrow> string \<Rightarrow> string \<Rightarrow> string \<Rightarrow> pydict \<Rightarrow> button_payload" where
  "reply_payload pf rtype id_key title_key r =
     \<lparr>p_response_type = rtype,
      p_button_id = py_str pf (py_or (dict_get r id_key) (JStr [])),
      p_button_title = py_str pf (py_or (dict_get r title_key) (JStr []))\<rparr>"

definition legacy_button :: "platform \<Rightarrow> pydict \<Rightarrow> error + button_payload option" where
  "legacy_button pf message_data =
     (case dict_get message_data ''button'' of
        JDict button \<Rightarrow> Inr (Some (reply_payload pf ''button'' ''payload'' ''text'' button))
      | _ \<Rightarrow> Inr None)"

definition extract_button_payload :: "platform \<Rightarrow> pydict \<Rightarrow> error + button_payload option" where
  "extract_button_payload pf message_data =
     (if message_data = [] then Inr None
      else case dict_get message_data ''interactive'' of
        JDict interactive \<Rightarrow>
          (let itype = dict_get interactive ''type'' in
           if itype = JStr ''button_reply'' then
             (case dict_or_empty (dict_get interactive ''button_reply'') of
                Inl e \<Rightarrow> Inl e
              | Inr br \<Rightarrow> Inr (Some (reply_payload pf ''button_reply'' ''id'' ''title'' br)))
           else if itype = JStr ''list_reply'' then
             (case dict_or_empty (dict_get interactive ''list_reply'') of
                Inl e \<Rightarrow> Inl e
              | Inr lr \<Rightarrow> Inr (Some (reply_payload pf ''list_reply'' ''id'' ''title'' lr)))
           else legacy_button pf message_data)
      | _ \<Rightarrow> legacy_button pf message_data)"

section \<open>\<^verbatim>\<open>main.py\<close>: the webhook handlers\<close>

text \<open>
  A handler takes the committed database and returns it after \<^verbatim>\<open>db.commit()\<close>, or the
  exception it raises; an exception leaves the session uncommitted, so the database stays
  as it was. \<open>now\<close> is the reading of \<^verbatim>\<open>datetime.utcnow()\<close> during the call.
\<close>

text \<open>\<^verbatim>\<open>msg.campaign.<counter> += 1\<close>: the campaign is loaded through the foreign key.\<close>

definition bump_campaign :: "int \<Rightarrow> (Campaign \<Rightarrow> Campaign) \<Rightarrow> db \<Rightarrow> error + db" where
  "bump_campaign cid f d =
     (case find_campaign d cid of
        None \<Rightarrow> Inl (AttributeError ''campaign'')
      | Some c \<Rightarrow> Inr (write_campaign cid f d))"

definition process_status_update :: "platform \<Rightarrow> nat \<Rightarrow> db \<Rightarrow> pydict \<Rightarrow> error + db" where
  "process_status_update pf now d status_data =
     (case extract_message_status status_data of
        None \<Rightarrow> Inr d
      | Some info \<Rightarrow>
          let wid = info_whatsapp_message_id info; status = info_status info in
          if \<not> truthy wid then Inr d
          else
           (case sql_text pf wid of
            None \<Rightarrow> Inl DriverError
          | Some w \<Rightarrow>
              (case find_message_by_wamid d w of
                 None \<Rightarrow> Inr d
               | Some msg \<Rightarrow>
                   if status = JStr ''sent'' then
                     Inr (write_message (msg_id msg)
                            (\<lambda>m. m\<lparr>msg_status := SENT, msg_sent_at := Some now\<rparr>) d)
                   else if status = JStr ''delivered'' then
                     bump_campaign (msg_campaign_id msg)
                       (\<lambda>c. c\<lparr>delivered_count := delivered_count c + 1\<rparr>)
                       (write_message (msg_id msg)
                          (\<lambda>m. m\<lparr>msg_status := DELIVERED, delivered_at := Some now\<rparr>) d)
                   else if status = JStr ''read'' then
                     bump_campaign (msg_campaign_id msg)
                       (\<lambda>c. c\<lparr>read_count := read_count c + 1\<rparr>)
                       (write_message (msg_id msg)
                          (\<lambda>m. m\<lparr>msg_status := READ, read_at := Some now\<rparr>) d)
                   else if status = JStr ''failed'' then
                     bump_campaign (msg_campaign_id msg)
                       (\<lambda>c. c\<lparr>failed_count := failed_count c + 1\<rparr>)
                       (write_message (msg_id msg)
                          (\<lambda>m. m\<lparr>msg_status := FAILED,
                                  error_message := Some (py_str pf (info_error info))\<rparr>) d)
                   else Inr d)))"

text \<open>\<^verbatim>\<open>(message_data.get("text") or {}).get("body", "") or ""\<close>.\<close>

definition text_body :: "pydict \<Rightarrow> error + json" where
  "text_body message_data =
     (case dict_or_empty (dict_get message_data ''text'') of
        Inl e \<Rightarrow> Inl e
      | Inr t \<Rightarrow>
          Inr (py_or (case map_of t ''body'' of None \<Rightarrow> JStr [] | Some b \<Rightarrow> b) (JStr [])))"

text \<open>
  \<^verbatim>\<open>order_by(desc(created_at)).first()\<close> over the messages of one member: a row with the
  largest \<^verbatim>\<open>created_at\<close>, the earliest inserted one among equals.
\<close>

fun latest :: "Message list \<Rightarrow> Message option" where
  "latest [] = None"
| "latest (m # ms) =
     (case latest ms of
        None \<Rightarrow> Some m
      | Some m' \<Rightarrow> if msg_created_at m < msg_created_at m' then Some m' else Some m)"

definition last_message :: "db \<Rightarrow> int \<Rightarrow> Message option" where
  "last_message d mid = latest (filter (\<lambda>m. msg_member_id m = mid) (messages d))"

definition process_incoming_message :: "platform \<Rightarrow> nat \<Rightarrow> db \<Rightarrow> pydict \<Rightarrow> error + db" where
  "process_incoming_message pf now d message_data =
     (let sender = dict_get message_data ''from'' in
      if \<not> truthy sender then Inr d
      else case sql_text pf sender of
        None \<Rightarrow> Inl DriverError
      | Some phone \<Rightarrow>
          (case find_member_by_phone d phone of
             None \<Rightarrow> Inr d
           | Some member \<Rightarrow>
               (case text_body message_data of
                  Inl e \<Rightarrow> Inl e
                | Inr text \<Rightarrow>
                    (case is_stop_command text of
                       Inl e \<Rightarrow> Inl e
                     | Inr True \<Rightarrow>
                         Inr ((write_member (mb_id member) (\<lambda>m. m\<lparr>mb_is_opted_in := False\<rparr>) d)
                               \<lparr>optouts := optouts d @
                                  [\<lparr>o_id = next_id (map o_id (optouts d)),
                                    o_member_id = Some (mb_id member),
                                    o_phone_number = phone,
                                    reason = Some ''stop'',
                                    o_created_at = now\<rparr>]\<rparr>)
                     | Inr False \<Rightarrow>
                         (case extract_button_payload pf message_data of
                            Inl e \<Rightarrow> Inl e
                          | Inr None \<Rightarrow> Inr d
                          | Inr (Some payload) \<Rightarrow>
                              (case last_message d (mb_id member) of
                                 None \<Rightarrow> Inr d
                               | Some last_msg \<Rightarrow>
                                   Inr (d\<lparr>responses := responses d @
                                          [\<lparr>r_id = next_id (map r_id (responses d)),
                                            r_message_id = msg_id last_msg,
                                            r_member_id = mb_id member,
                                            r_campaign_id = Some (msg_campaign_id last_msg),
                                            response_type = Some (p_response_type payload),
                                            button_title = Some (p_button_title payload),
                                            button_id = Some (p_button_id payload),
                                            received_at = now\<rparr>]\<rparr>)))))))"

section \<open>\<^verbatim>\<open>main.py\<close>: members listing\<close>

text \<open>
  \<^verbatim>\<open>GET /members\<close>: each filter applies when its query parameter is a non-empty string
  (\<^verbatim>\<open>opted_in\<close>: when it is given).
\<close>

definition list_members ::
  "nat \<Rightarrow> nat \<Rightarrow> string option \<Rightarrow> string option \<Rightarrow> string option \<Rightarrow> bool option \<Rightarrow> db
     \<Rightarrow> Member list" where
  "list_members skip limit status city plan opted_in d =
     (let q0 = members d;
          q1 = (case status of Some s \<Rightarrow> if s \<noteq> [] then filter (\<lambda>m. mb_status m = Some s) q0 else q0
                | None \<Rightarrow> q0);
          q2 = (case city of Some s \<Rightarrow> if s \<noteq> [] then filter (\<lambda>m. mb_city m = Some s) q1 else q1
                | None \<Rightarrow> q1);
          q3 = (case plan of Some s \<Rightarrow> if s \<noteq> [] then filter (\<lambda>m. mb_plan m = Some s) q2 else q2
                | None \<Rightarrow> q2);
          q4 = (case opted_in of Some b \<Rightarrow> filter (\<lambda>m. mb_is_opted_in m = b) q3 | None \<Rightarrow> q3)
      in take limit (drop skip q4))"

section \<open>\<^verbatim>\<open>main.py\<close>: campaigns\<close>

record SendTemplateRequest =
  campaign_name :: string
  template_name :: string
  description :: "string option"
  status_filter :: "string option"
  plan_filter :: "string option"
  city_filter :: "string option"
  expiry_days_filter :: "int option"
  access_token :: string
  phone_number_id :: string
  language_code :: string
  test_numbers :: "string list option"
  auto_dispatch :: bool

record SendTemplateResponse =
  campaign_id :: int
  message :: string
  total_recipients :: int
  queued_count :: int
  dispatch_started :: bool

text \<open>A background task added with \<^verbatim>\<open>background_tasks.add_task(send_campaign_messages_task, ...)\<close>.\<close>

record dispatch_task =
  task_campaign_id :: int
  task_access_token :: string
  task_phone_number_id :: string

text \<open>The loop \<^verbatim>\<open>for m in members: db.add(models.Message(...))\<close>; \<open>k\<close> is the next free key.\<close>

fun queue_messages :: "int \<Rightarrow> int \<Rightarrow> string \<Rightarrow> nat \<Rightarrow> Member list \<Rightarrow> Message list" where
  "queue_messages k cid tname now [] = []"
| "queue_messages k cid tname now (m # ms) =
     \<lparr>msg_id = k, msg_campaign_id = cid, msg_member_id = mb_id m, msg_status = QUEUED,
      msg_template_name = Some tname, whatsapp_message_id = None, error_message = None,
      msg_created_at = now, msg_sent_at = None, delivered_at = None, read_at = None\<rparr>
     # queue_messages (k + 1) cid tname now ms"

definition create_campaign_and_queue ::
  "nat \<Rightarrow> db \<Rightarrow> SendTemplateRequest
     \<Rightarrow> error + (db \<times> SendTemplateResponse \<times> dispatch_task option)" where
  "create_campaign_and_queue now d request =
     (let selected = filter (\<lambda>m. mb_is_opted_in m = True) (members d) in
      if selected = [] then Inl (HTTPException 400 ''No opted-in members'')
      else
        let campaign =
              \<lparr>c_id = next_id (map c_id (campaigns d)),
               c_name = campaign_name request,
               c_template_name = template_name request,
               c_description = description request,
               target_count = int (length selected),
               sent_count = 0, delivered_count = 0, read_count = 0, failed_count = 0,
               c_status_filter = None, c_plan_filter = None, c_city_filter = None,
               c_expiry_days_filter = None,
               c_status = ''queued'', c_created_at = now, c_sent_at = None\<rparr>;
            d' = d\<lparr>campaigns := campaigns d @ [campaign],
                   messages := messages d @
                     queue_messages (next_id (map msg_id (messages d))) (c_id campaign)
                       (template_name request) now selected\<rparr>
        in if auto_dispatch request then
             Inr (d',
                  \<lparr>campaign_id = c_id campaign,
                   message = ''Campaign created and dispatch started.'',
                   total_recipients = int (length selected),
                   queued_count = int (length selected),
                   dispatch_started = True\<rparr>,
                  Some \<lparr>task_campaign_id = c_id campaign,
                        task_access_token = access_token request,
                        task_phone_number_id = phone_number_id request\<rparr>)
           else
             Inr (d',
                  \<lparr>campaign_id = c_id campaign,
                   message = ''Campaign created and queued.'',
                   total_recipients = int (length selected),
                   queued_count = int (length selected),
                   dispatch_started = False\<rparr>,
                  None))"

record DispatchCampaignRequest =
  body_access_token :: string
  body_phone_number_id :: string

record dispatch_reply =
  reply_status :: string
  reply_campaign_id :: int

text \<open>\<^verbatim>\<open>POST /campaigns/{campaign_id}/dispatch\<close>: the reply and the task it schedules.\<close>

definition dispatch_campaign :: "int \<Rightarrow> DispatchCampaignRequest \<Rightarrow> dispatch_reply \<times> dispatch_task" where
  "dispatch_campaign cid body =
     (\<lparr>reply_status = ''dispatch_started'', reply_campaign_id = cid\<rparr>,
      \<lparr>task_campaign_id = cid,
       task_access_token = body_access_token body,
       task_phone_number_id = body_phone_number_id body\<rparr>)"

section \<open>\<^verbatim>\<open>whatsapp_client.py\<close>\<close>

record WhatsAppCloudClient =
  wa_access_token :: string
  wa_phone_number_id :: string
  wa_api_version :: string
  wa_base_url :: string

definition get_whatsapp_client :: "string \<Rightarrow> string \<Rightarrow> error + WhatsAppCloudClient" where
  "get_whatsapp_client tok pid =
     (if tok = [] then Inl (ValueError ''access_token is required'')
      else if pid = [] then Inl (ValueError ''phone_number_id is required'')
      else Inr \<lparr>wa_access_token = tok, wa_phone_number_id = pid, wa_api_version = ''v19.0'',
                wa_base_url = ''https://graph.facebook.com/'' @ ''v19.0'' @ ''/'' @ pid @ ''/messages''\<rparr>)"

text \<open>
  What \<^verbatim>\<open>send_template_message_sync\<close> returns: \<^verbatim>\<open>{"success": True, "message_id": ...}\<close> or
  \<^verbatim>\<open>{"success": False, "error": ...}\<close>, the error already as the text \<^verbatim>\<open>str\<close> gives. The
  HTTP exchange is outside the program: a provider maps the client, the number of the call
  within one dispatch, the recipient's phone and the template name to a result.
\<close>

datatype send_result = SendOk "string option" | SendFailed string

type_synonym provider = "WhatsAppCloudClient \<Rightarrow> nat \<Rightarrow> string \<Rightarrow> string \<Rightarrow> send_result"

section \<open>\<^verbatim>\<open>main.py\<close>: dispatch\<close>

text \<open>
  The body of the loop of \<^verbatim>\<open>send_campaign_messages\<close> for the \<open>k\<close>-th message of the
  snapshot, up to its \<^verbatim>\<open>db.commit()\<close>. A message whose member is gone raises inside the
  \<^verbatim>\<open>try\<close> and is marked failed by the \<^verbatim>\<open>except\<close> branch. \<open>clock\<close> gives the
  successive readings of \<^verbatim>\<open>datetime.utcnow()\<close>.
\<close>

definition mark_failed :: "int \<Rightarrow> int \<Rightarrow> string \<Rightarrow> db \<Rightarrow> db" where
  "mark_failed cid i e d =
     write_campaign cid (\<lambda>c. c\<lparr>failed_count := failed_count c + 1\<rparr>)
       (write_message i (\<lambda>m. m\<lparr>msg_status := FAILED, error_message := Some e\<rparr>) d)"

definition mark_sent :: "int \<Rightarrow> int \<Rightarrow> string option \<Rightarrow> nat \<Rightarrow> db \<Rightarrow> db" where
  "mark_sent cid i w t d =
     write_campaign cid (\<lambda>c. c\<lparr>sent_count := sent_count c + 1\<rparr>)
       (write_message i
          (\<lambda>m. m\<lparr>msg_status := SENT, whatsapp_message_id := w, msg_sent_at := Some t\<rparr>) d)"

definition none_has_no_phone_number :: string where
  "none_has_no_phone_number =
     [CHR 0x27] @ ''NoneType'' @ [CHR 0x27] @ '' object has no attribute '' @
     [CHR 0x27] @ ''phone_number'' @ [CHR 0x27]"

definition send_one ::
  "provider \<Rightarrow> WhatsAppCloudClient \<Rightarrow> (nat \<Rightarrow> nat) \<Rightarrow> Campaign \<Rightarrow> nat \<Rightarrow> Message \<Rightarrow> db \<Rightarrow> db" where
  "send_one wa cl clock camp k msg d =
     (case find_member d (msg_member_id msg) of
        None \<Rightarrow>
          mark_failed (c_id camp) (msg_id msg)
            none_has_no_phone_number d
      | Some mb \<Rightarrow>
          (case wa cl k (mb_phone_number mb) (c_template_name camp) of
             SendOk w \<Rightarrow> mark_sent (c_id camp) (msg_id msg) w (clock (Suc k)) d
           | SendFailed e \<Rightarrow> mark_failed (c_id camp) (msg_id msg) e d))"

text \<open>The loop: the databases committed after each message, in order.\<close>

fun send_loop ::
  "provider \<Rightarrow> WhatsAppCloudClient \<Rightarrow> (nat \<Rightarrow> nat) \<Rightarrow> Campaign \<Rightarrow> nat \<Rightarrow> Message list \<Rightarrow> db
     \<Rightarrow> db list" where
  "send_loop wa cl clock camp k [] d = []"
| "send_loop wa cl clock camp k (msg # msgs) d =
     (let d' = send_one wa cl clock camp k msg d
      in d' # send_loop wa cl clock camp (Suc k) msgs d')"

text \<open>
  \<^verbatim>\<open>send_campaign_messages\<close> commits several times. The result lists the committed
  databases in order, with the exception that ended the call, if any.
\<close>

definition queued_of :: "int \<Rightarrow> db \<Rightarrow> Message list" where
  "queued_of cid d =
     filter (\<lambda>m. msg_campaign_id m = cid \<and> msg_status m = QUEUED) (messages d)"

definition send_campaign_messages ::
  "provider \<Rightarrow> (nat \<Rightarrow> nat) \<Rightarrow> db \<Rightarrow> int \<Rightarrow> string \<Rightarrow> string \<Rightarrow> db list \<times> error option" where
  "send_campaign_messages wa clock d cid tok pid =
     (case query_campaign d cid of
        Inl e \<Rightarrow> ([], Some e)
      | Inr None \<Rightarrow> ([], None)
      | Inr (Some camp) \<Rightarrow>
          let d1 = write_campaign cid
                     (\<lambda>c. c\<lparr>c_status := ''sending'', c_sent_at := Some (clock 0)\<rparr>) d
          in (case get_whatsapp_client tok pid of
                Inl e \<Rightarrow> ([d1], Some e)
              | Inr cl \<Rightarrow>
                  (let msgs = queued_of cid d1;
                       commits = send_loop wa cl clock camp 0 msgs d1;
                       d2 = last (d1 # commits)
                   in (d1 # commits @
                         [write_campaign cid (\<lambda>c. c\<lparr>c_status := ''sent''\<rparr>) d2],
                       None))))"

text \<open>
  What the \<^verbatim>\<open>try\<close> block of the \<open>k\<close>-th iteration yields for a message: the provider's
  result, or the failure with the text of the exception raised for a missing member. The
  list \<open>outcomes\<close> holds these for a snapshot, in order.
\<close>

definition attempt ::
  "provider \<Rightarrow> WhatsAppCloudClient \<Rightarrow> Campaign \<Rightarrow> db \<Rightarrow> nat \<Rightarrow> Message \<Rightarrow> send_result" where
  "attempt wa cl camp d k msg =
     (case find_member d (msg_member_id msg) of
        None \<Rightarrow> SendFailed none_has_no_phone_number
      | Some mb \<Rightarrow> wa cl k (mb_phone_number mb) (c_template_name camp))"

fun outcomes ::
  "provider \<Rightarrow> WhatsAppCloudClient \<Rightarrow> Campaign \<Rightarrow> db \<Rightarrow> nat \<Rightarrow> Message list
     \<Rightarrow> send_result list" where
  "outcomes wa cl camp d k [] = []"
| "outcomes wa cl camp d k (msg # msgs) =
     attempt wa cl camp d k msg # outcomes wa cl camp d (Suc k) msgs"

fun is_ok :: "send_result \<Rightarrow> bool" where
  "is_ok (SendOk w) = True"
| "is_ok (SendFailed e) = False"

text \<open>
  The row of a message once an outcome was recorded at time \<open>t\<close>, and the campaign once
  the outcome was counted: the assignments of the two branches of the loop body.
\<close>

definition recorded :: "send_result \<Rightarrow> nat \<Rightarrow> Message \<Rightarrow> Message" where
  "recorded r t m =
     (case r of
        SendOk w \<Rightarrow> m\<lparr>msg_status := SENT, whatsapp_message_id := w, msg_sent_at := Some t\<rparr>
      | SendFailed e \<Rightarrow> m\<lparr>msg_status := FAILED, error_message := Some e\<rparr>)"

definition tallied :: "send_result \<Rightarrow> Campaign \<Rightarrow> Campaign" where
  "tallied r c =
     (case r of
        SendOk w \<Rightarrow> c\<lparr>sent_count := sent_count c + 1\<rparr>
      | SendFailed e \<Rightarrow> c\<lparr>failed_count := failed_count c + 1\<rparr>)"

text \<open>The database a call leaves behind: its last commit, or the one it started from.\<close>

definition committed :: "db \<Rightarrow> db list \<times> error option \<Rightarrow> db" where
  "committed d r = last (d # fst r)"

text \<open>Running a scheduled task.\<close>

definition send_campaign_messages_task ::
  "provider \<Rightarrow> (nat \<Rightarrow> nat) \<Rightarrow> db \<Rightarrow> dispatch_task \<Rightarrow> db list \<times> error option" where
  "send_campaign_messages_task wa clock d t =
     send_campaign_messages wa clock d (task_campaign_id t) (task_access_token t)
       (task_phone_number_id t)"

text \<open>The four counters of a campaign.\<close>

definition counters :: "Campaign \<Rightarrow> int \<times> int \<times> int \<times> int" where
  "counters c = (sent_count c, delivered_count c, read_count c, failed_count c)"

section \<open>Reachable states\<close>

text \<open>
  A dispatch runs as a background task and commits after each message, so other handlers,
  and other dispatches, run between its commits. A state is the committed database with
  the dispatches in progress. A dispatch has committed \<^verbatim>\<open>sending\<close> and holds the campaign
  it loaded and its credentials (\<open>Started\<close>); once it has built its client and queried its
  snapshot it holds the client, the number of the next iteration and the messages still to
  process (\<open>Sending\<close>).
\<close>

datatype run =
    Started Campaign string string
  | Sending Campaign WhatsAppCloudClient nat "Message list"

fun run_campaign :: "run \<Rightarrow> Campaign" where
  "run_campaign (Started camp tok pid) = camp"
| "run_campaign (Sending camp cl k msgs) = camp"

text \<open>
  The states the program can reach. It starts with no campaign, no message and no
  dispatch; the member endpoints change the members only. Each rule is one commit, or one
  handler call: campaign creation; the start of a dispatch that \<open>may_start\<close> admits, its
  snapshot (or the exception of the client constructor, which ends it), one iteration of
  its loop, and its end; a status event that \<open>admits\<close> admits; an inbound message. Inputs,
  clock readings and provider are arbitrary. A step reads the database as committed last
  and commits at once: steps interleave in any order, but no commit falls between the
  reads and the commit of one step.
\<close>

inductive reachable ::
  "(platform \<Rightarrow> db \<Rightarrow> pydict \<Rightarrow> bool) \<Rightarrow> (run list \<Rightarrow> int \<Rightarrow> bool) \<Rightarrow> db \<times> run list \<Rightarrow> bool"
  for admits :: "platform \<Rightarrow> db \<Rightarrow> pydict \<Rightarrow> bool" and may_start :: "run list \<Rightarrow> int \<Rightarrow> bool" where
  start: "campaigns d = [] \<Longrightarrow> messages d = [] \<Longrightarrow> reachable admits may_start (d, [])"
| recipients:
    "reachable admits may_start (d, rs) \<Longrightarrow> reachable admits may_start (d\<lparr>members := ms\<rparr>, rs)"
| created:
    "reachable admits may_start (d, rs)
       \<Longrightarrow> create_campaign_and_queue now d request = Inr (d', reply, task)
       \<Longrightarrow> reachable admits may_start (d', rs)"
| dispatch_begun:
    "reachable admits may_start (d, rs) \<Longrightarrow> may_start rs cid
       \<Longrightarrow> query_campaign d cid = Inr (Some camp)
       \<Longrightarrow> reachable admits may_start
             (write_campaign cid (\<lambda>c. c\<lparr>c_status := ''sending'', c_sent_at := Some t\<rparr>) d,
              rs @ [Started camp tok pid])"
| dispatch_aborted:
    "reachable admits may_start (d, rs1 @ Started camp tok pid # rs2)
       \<Longrightarrow> get_whatsapp_client tok pid = Inl e
       \<Longrightarrow> reachable admits may_start (d, rs1 @ rs2)"
| dispatch_snapshot:
    "reachable admits may_start (d, rs1 @ Started camp tok pid # rs2)
       \<Longrightarrow> get_whatsapp_client tok pid = Inr cl
       \<Longrightarrow> reachable admits may_start
             (d, rs1 @ Sending camp cl 0 (queued_of (c_id camp) d) # rs2)"
| dispatch_iteration:
    "reachable admits may_start (d, rs1 @ Sending camp cl k (msg # msgs) # rs2)
       \<Longrightarrow> reachable admits may_start
             (send_one wa cl clock camp k msg d, rs1 @ Sending camp cl (Suc k) msgs # rs2)"
| dispatch_ended:
    "reachable admits may_start (d, rs1 @ Sending camp cl k [] # rs2)
       \<Longrightarrow> reachable admits may_start
             (write_campaign (c_id camp) (\<lambda>c. c\<lparr>c_status := ''sent''\<rparr>) d, rs1 @ rs2)"
| status_event:
    "reachable admits may_start (d, rs) \<Longrightarrow> admits pf d ev
       \<Longrightarrow> process_status_update pf now d ev = Inr d'
       \<Longrightarrow> reachable admits may_start (d', rs)"
| inbound:
    "reachable admits may_start (d, rs) \<Longrightarrow> process_incoming_message pf now d ev = Inr d'
       \<Longrightarrow> reachable admits may_start (d', rs)"

text \<open>Every status event is admitted, and every dispatch may start.\<close>

definition any_event :: "platform \<Rightarrow> db \<Rightarrow> pydict \<Rightarrow> bool" where
  "any_event pf d ev = True"

definition any_dispatch :: "run list \<Rightarrow> int \<Rightarrow> bool" where
  "any_dispatch rs cid = True"

text \<open>The message that \<^verbatim>\<open>process_status_update\<close> loads for a status event, if any.\<close>

definition matched_message :: "platform \<Rightarrow> db \<Rightarrow> pydict \<Rightarrow> Message option" where
  "matched_message pf d ev =
     (case extract_message_status ev of
        None \<Rightarrow> None
      | Some info \<Rightarrow>
          if \<not> truthy (info_whatsapp_message_id info) then None
          else (case sql_text pf (info_whatsapp_message_id info) of
                  None \<Rightarrow> None
                | Some w \<Rightarrow> find_message_by_wamid d w))"

text \<open>
  A status event that arrives in order: it matches no message, or it is \<^verbatim>\<open>sent\<close> or
  \<^verbatim>\<open>delivered\<close> for a message in state \<^verbatim>\<open>sent\<close>, or \<^verbatim>\<open>read\<close> for a message in state
  \<^verbatim>\<open>delivered\<close>, or its status is none of the four. A \<^verbatim>\<open>failed\<close> event for a message
  that was sent is not in order: the message is counted in \<^verbatim>\<open>sent_count\<close> already.
\<close>

definition in_order_event :: "platform \<Rightarrow> db \<Rightarrow> pydict \<Rightarrow> bool" where
  "in_order_event pf d ev =
     (case matched_message pf d ev of
        None \<Rightarrow> True
      | Some msg \<Rightarrow>
          let status = dict_get ev ''status'' in
          if status = JStr ''sent'' \<or> status = JStr ''delivered'' then msg_status msg = SENT
          else if status = JStr ''read'' then msg_status msg = DELIVERED
          else status \<noteq> JStr ''failed'')"

text \<open>A dispatch may start when no dispatch of the same campaign is in progress.\<close>

definition no_overlap :: "run list \<Rightarrow> int \<Rightarrow> bool" where
  "no_overlap rs cid = (cid \<notin> set (map (\<lambda>r. c_id (run_campaign r)) rs))"

text \<open>
  The invariant behind the bounds on the counters. Message ids are unique and every
  message belongs to an existing campaign. In each campaign the messages counted as sent
  or failed and those still queued do not exceed the target; the counter of sent messages
  covers the messages in the states \<^verbatim>\<open>sent\<close>, \<^verbatim>\<open>delivered\<close> and \<^verbatim>\<open>read\<close>; the counters of
  delivered and read messages are the numbers of messages in those states.
\<close>

definition count_in :: "MessageStatus set \<Rightarrow> int \<Rightarrow> Message list \<Rightarrow> int" where
  "count_in S cid ms = int (length (filter (\<lambda>m. msg_campaign_id m = cid \<and> msg_status m \<in> S) ms))"

definition balanced :: "Message list \<Rightarrow> Campaign \<Rightarrow> bool" where
  "balanced ms c \<longleftrightarrow>
     0 \<le> failed_count c
   \<and> sent_count c + failed_count c + count_in {QUEUED} (c_id c) ms \<le> target_count c
   \<and> count_in {SENT, DELIVERED, READ} (c_id c) ms \<le> sent_count c
   \<and> delivered_count c = count_in {DELIVERED, READ} (c_id c) ms
   \<and> read_count c = count_in {READ} (c_id c) ms"

definition accounts_ok :: "db \<Rightarrow> bool" where
  "accounts_ok d \<longleftrightarrow>
     distinct (map msg_id (messages d))
   \<and> (\<forall>m\<in>set (messages d). msg_campaign_id m \<in> c_id ` set (campaigns d))
   \<and> (\<forall>c\<in>set (campaigns d). balanced (messages d) c)"

text \<open>
  The dispatches in progress are of different campaigns, and the messages a dispatch has
  still to process are queued messages of its campaign, with different ids.
\<close>

fun todo :: "run \<Rightarrow> Message list" where
  "todo (Started camp tok pid) = []"
| "todo (Sending camp cl k msgs) = msgs"

definition runs_ok :: "db \<Rightarrow> run list \<Rightarrow> bool" where
  "runs_ok d rs \<longleftrightarrow>
     distinct (map (\<lambda>r. c_id (run_campaign r)) rs)
   \<and> (\<forall>r\<in>set rs. set (todo r) \<subseteq> set (queued_of (c_id (run_campaign r)) d)
                  \<and> distinct (map msg_id (todo r)))"

section \<open>Sample data\<close>

definition pf0 :: platform where
  "pf0 = \<lparr>str_other = (\<lambda>v. ''?''), sql_text_other = (\<lambda>v. None)\<rparr>"

definition alice :: Member where
  "alice = \<lparr>mb_id = 1, mb_phone_number = ''15550001'', mb_status = Some ''active'',
            mb_city = None, mb_plan = None, mb_is_opted_in = True\<rparr>"

definition bob :: Member where
  "bob = \<lparr>mb_id = 2, mb_phone_number = ''15550002'', mb_status = Some ''expired'',
          mb_city = None, mb_plan = None, mb_is_opted_in = True\<rparr>"

definition carol :: Member where
  "carol = \<lparr>mb_id = 3, mb_phone_number = ''15550003'', mb_status = Some ''active'',
            mb_city = None, mb_plan = None, mb_is_opted_in = False\<rparr>"

definition db0 :: db where
  "db0 = \<lparr>members = [alice, bob, carol], campaigns = [], messages = [], responses = [],
          optouts = []\<rparr>"

definition req0 :: SendTemplateRequest where
  "req0 = \<lparr>campaign_name = ''renewal'', template_name = ''hello_world'', description = None,
           status_filter = Some ''active'', plan_filter = None, city_filter = None,
           expiry_days_filter = None, access_token = ''token'', phone_number_id = ''1001'',
           language_code = ''en_US'', test_numbers = None, auto_dispatch = False\<rparr>"

definition wa0 :: provider where
  "wa0 cl k phone tname =
     (if phone = ''15550001'' then SendOk (Some ''wamid.A'') else SendFailed ''rejected'')"

definition clock0 :: "nat \<Rightarrow> nat" where
  "clock0 k = 100 + k"

text \<open>The sample database after a campaign was created, and after it was dispatched.\<close>

definition db1 :: db where
  "db1 = (case create_campaign_and_queue 10 db0 req0 of Inr (d, r, t) \<Rightarrow> d | Inl e \<Rightarrow> db0)"

definition db2 :: db where
  "db2 = committed db1 (send_campaign_messages wa0 clock0 db1 1 ''token'' ''1001'')"

text \<open>Sample webhook events.\<close>

definition st_unknown :: pydict where
  "st_unknown = [(''id'', JStr ''wamid.Z''), (''status'', JStr ''delivered'')]"

definition st_no_id :: pydict where
  "st_no_id = [(''status'', JStr ''delivered'')]"

definition ev_stranger :: pydict where
  "ev_stranger = [(''from'', JStr ''19990000''), (''text'', JDict [(''body'', JStr ''stop'')])]"

definition ev_stop_carol :: pydict where
  "ev_stop_carol = [(''from'', JStr ''15550003''), (''text'', JDict [(''body'', JStr '' STOP '')])]"

definition button_reply_from :: "string \<Rightarrow> pydict" where
  "button_reply_from phone =
     [(''from'', JStr phone),
      (''interactive'', JDict [(''type'', JStr ''button_reply''),
         (''button_reply'', JDict [(''id'', JStr ''renew''), (''title'', JStr ''Renew'')])])]"

text \<open>Status events for the message sent to \<open>alice\<close>, and the databases they lead to.\<close>

definition st_delivered_A :: pydict where
  "st_delivered_A = [(''id'', JStr ''wamid.A''), (''status'', JStr ''delivered'')]"

definition st_read_A :: pydict where
  "st_read_A = [(''id'', JStr ''wamid.A''), (''status'', JStr ''read'')]"

definition st_failed_A :: pydict where
  "st_failed_A = [(''id'', JStr ''wamid.A''), (''status'', JStr ''failed'')]"

definition after_status :: "nat \<Rightarrow> db \<Rightarrow> pydict \<Rightarrow> db" where
  "after_status now d ev =
     (case process_status_update pf0 now d ev of Inr d' \<Rightarrow> d' | Inl e \<Rightarrow> d)"

definition db_delivered :: db where
  "db_delivered = after_status 80 db2 st_delivered_A"

definition db_delivered_twice :: db where
  "db_delivered_twice = after_status 81 db_delivered st_delivered_A"

definition db_read :: db where
  "db_read = after_status 85 db_delivered st_read_A"

definition db_read_then_delivered :: db where
  "db_read_then_delivered = after_status 90 db_read st_delivered_A"

definition db_read_early :: db where
  "db_read_early = after_status 80 db2 st_read_A"

definition db_failed_late :: db where
  "db_failed_late = after_status 80 db2 st_failed_A"

text \<open>The sample campaign dispatched with an empty access token.\<close>

definition db_stuck :: db where
  "db_stuck = committed db1 (send_campaign_messages wa0 clock0 db1 1 [] ''1001'')"

text \<open>
  Two dispatches of the sample campaign that overlap: the second starts, and both take
  their snapshot, before the first processes a message. Each of them then processes both
  messages and ends.
\<close>

definition client0 :: WhatsAppCloudClient where
  "client0 = \<lparr>wa_access_token = ''token'', wa_phone_number_id = ''1001'',
               wa_api_version = ''v19.0'',
               wa_base_url = ''https://graph.facebook.com/v19.0/1001/messages''\<rparr>"

definition db_both_begun :: db where
  "db_both_begun =
     write_campaign 1 (\<lambda>c. c\<lparr>c_status := ''sending'', c_sent_at := Some 201\<rparr>)
       (write_campaign 1 (\<lambda>c. c\<lparr>c_status := ''sending'', c_sent_at := Some 200\<rparr>) db1)"

definition db_first_done :: db where
  "db_first_done =
     last (db_both_begun #
             send_loop wa0 client0 clock0 (hd (campaigns db1)) 0 (queued_of 1 db_both_begun)
               db_both_begun)"

definition db_second_done :: db where
  "db_second_done =
     last (db_first_done #
             send_loop wa0 client0 clock0 (hd (campaigns db1)) 0 (queued_of 1 db_both_begun)
               db_first_done)"

definition db_overlap :: db where
  "db_overlap =
     write_campaign 1 (\<lambda>c. c\<lparr>c_status := ''sent''\<rparr>)
       (write_campaign 1 (\<lambda>c. c\<lparr>c_status := ''sent''\<rparr>) db_second_done)"

text \<open>
  A platform after SQLite: a number compared with a text column is rendered in decimal, a
  boolean as 0 or 1, and an integer outside 64 bits is refused.
\<close>

fun digits :: "nat \<Rightarrow> string" where
  "digits n =
     (if n < 10 then [char_of (48 + n)] else digits (n div 10) @ [char_of (48 + n mod 10)])"

declare digits.simps [simp del]

definition decimal :: "int \<Rightarrow> string" where
  "decimal i = (if i < 0 then CHR ''-'' # digits (nat (- i)) else digits (nat i))"

definition pf_sqlite :: platform where
  "pf_sqlite =
     \<lparr>str_other = (\<lambda>v. ''?''),
      sql_text_other =
        (\<lambda>v. case v of
               JNum n \<Rightarrow> if int64 n then Some (decimal n) else None
             | JBool b \<Rightarrow> Some (if b then ''1'' else ''0'')
             | _ \<Rightarrow> None)\<rparr>"

definition st_numeric_id :: pydict where
  "st_numeric_id = [(''id'', JNum 42), (''status'', JStr ''delivered'')]"

definition st_list_id :: pydict where
  "st_list_id = [(''id'', JList [JStr ''wamid.Z'']), (''status'', JStr ''delivered'')]"

definition ev_dict_sender :: pydict where
  "ev_dict_sender =
     [(''from'', JDict [(''wa_id'', JStr ''19990000'')]),
      (''text'', JDict [(''body'', JStr ''hello'')])]"

definition no_body :: DispatchCampaignRequest where
  "no_body = \<lparr>body_access_token = ''token'', body_phone_number_id = ''1001''\<rparr>"

section \<open>Events that cannot be attributed\<close>

lemma dict_get_missing: "map_of ev k = None \<Longrightarrow> dict_get ev k = JNull"
  by (simp add: dict_get_def)

lemma extract_message_status_falsy:
  "\<not> truthy (dict_get ev ''id'') \<or> \<not> truthy (dict_get ev ''status'')
     \<Longrightarrow> extract_message_status ev = None"
  by (auto simp: extract_message_status_def Let_def)

lemma process_status_update_malformed:
  "map_of ev ''id'' = None \<or> map_of ev ''status'' = None
     \<Longrightarrow> process_status_update pf now d ev = Inr d"
  by (auto simp: process_status_update_def extract_message_status_falsy dict_get_missing)

lemma process_status_update_unknown_id:
  assumes "sql_text pf (dict_get ev ''id'') = Some w" and "find_message_by_wamid d w = None"
  shows "process_status_update pf now d ev = Inr d"
proof (cases "extract_message_status ev")
  case None
  then show ?thesis by (simp add: process_status_update_def)
next
  case (Some info)
  then have "info_whatsapp_message_id info = dict_get ev ''id''"
    by (auto simp: extract_message_status_def Let_def split: if_splits)
  with Some assms show ?thesis
    by (simp add: process_status_update_def Let_def)
qed

lemma process_incoming_message_unknown_sender:
  assumes "sql_text pf (dict_get ev ''from'') = Some s" and "find_member_by_phone d s = None"
  shows "process_incoming_message pf now d ev = Inr d"
  using assms by (simp add: process_incoming_message_def Let_def)

text \<open>What the handlers do with an id or a sender that the driver does not bind.\<close>

lemma process_status_update_refused_id:
  assumes "truthy (dict_get ev ''id'')" and "truthy (dict_get ev ''status'')"
    and "sql_text pf (dict_get ev ''id'') = None"
  shows "process_status_update pf now d ev = Inl DriverError"
proof -
  have "ev \<noteq> []" using assms(1) by (auto simp: dict_get_def)
  with assms show ?thesis
    by (simp add: process_status_update_def extract_message_status_def Let_def)
qed

lemma process_incoming_message_refused_sender:
  assumes "truthy (dict_get ev ''from'')" and "sql_text pf (dict_get ev ''from'') = None"
  shows "process_incoming_message pf now d ev = Inl DriverError"
  using assms by (simp add: process_incoming_message_def Let_def)




section \<open>Dispatch of an unknown campaign\<close>

text \<open>
  Claim C10, for an id that the driver binds. When the id is a signed 64-bit integer and
  no campaign has it, the dispatch task commits nothing and raises nothing, so the database
  it leaves is the one it started from; the endpoint that scheduled the task has replied
  \<^verbatim>\<open>dispatch_started\<close> with that id all the same.
\<close>

theorem dispatch_unknown_campaign_is_noop:
  assumes "find_campaign d cid = None" and "int64 cid"
  shows "send_campaign_messages_task wa clock d (snd (dispatch_campaign cid body)) = ([], None)
       \<and> committed d (send_campaign_messages_task wa clock d (snd (dispatch_campaign cid body))) = d
       \<and> fst (dispatch_campaign cid body)
           = \<lparr>reply_status = ''dispatch_started'', reply_campaign_id = cid\<rparr>"
  using assms
  by (simp add: send_campaign_messages_task_def dispatch_campaign_def
      send_campaign_messages_def query_campaign_def committed_def)

theorem dispatch_unknown_campaign_is_noop_witness:
  "find_campaign db2 7 = None \<and> int64 7
   \<and> send_campaign_messages_task wa0 clock0 db2 (snd (dispatch_campaign 7 no_body)) = ([], None)
   \<and> committed db2 (send_campaign_messages_task wa0 clock0 db2 (snd (dispatch_campaign 7 no_body)))
       = db2
   \<and> fst (dispatch_campaign 7 no_body)
       = \<lparr>reply_status = ''dispatch_started'', reply_campaign_id = 7\<rparr>"
proof -
  have h: "find_campaign db2 7 = None" and r: "int64 7"
    by code_simp+
  show ?thesis
    using h r dispatch_unknown_campaign_is_noop [OF h r, of wa0 clock0 no_body]
    by blast
qed

theorem dispatch_of_oversized_id_raises:
  "find_campaign db2 9223372036854775808 = None
   \<and> fst (dispatch_campaign 9223372036854775808 no_body)
       = \<lparr>reply_status = ''dispatch_started'', reply_campaign_id = 9223372036854775808\<rparr>
   \<and> send_campaign_messages_task wa0 clock0 db2
        (snd (dispatch_campaign 9223372036854775808 no_body))
       = ([], Some OverflowError)"
  by code_simp

section \<open>Opt-out by a stop command\<close>

lemma find_Some_in: "find P xs = Some x \<Longrightarrow> x \<in> set xs \<and> P x"
  by (induction xs) (auto split: if_splits)

lemma find_map_update:
  assumes "find P xs = Some x" and "\<And>y. P (f y) = P y" and "Q x"
  shows "find P (map (\<lambda>y. if Q y then f y else y) xs) = Some (f x)"
  using assms by (induction xs) (auto split: if_splits)

lemma text_body_str:
  assumes "dict_get ev ''text'' = JDict tx" and "map_of tx ''body'' = Some (JStr t)" and "t \<noteq> []"
  shows "text_body ev = Inr (JStr t)"
proof -
  from assms(2) have "tx \<noteq> []" by auto
  with assms show ?thesis
    by (simp add: text_body_def dict_or_empty_def py_or_def)
qed

lemma stop_word_nonempty: "py_lower (py_strip t) \<in> set stop_words \<Longrightarrow> t \<noteq> []"
  by (auto simp: stop_words_def py_lower_def py_strip_def)

text \<open>
  Claim C6. An inbound event from the phone of a known member whose text body, stripped and
  lower-cased, is one of the five stop words: the handler returns normally; every row of
  that member has its opt-in flag false afterwards, whatever it was before; exactly one
  opt-out record is appended, for that member and phone with reason \<^verbatim>\<open>stop\<close>; no
  response is added, and messages and campaigns are as before.
\<close>

theorem stop_command_opts_out:
  assumes sender: "dict_get ev ''from'' = JStr phone" and ph: "phone \<noteq> []"
    and known: "find_member_by_phone d phone = Some member"
    and body: "dict_get ev ''text'' = JDict tx" "map_of tx ''body'' = Some (JStr t)"
    and stop: "py_lower (py_strip t) \<in> set stop_words"
  shows "\<exists>d'. process_incoming_message pf now d ev = Inr d'
     \<and> members d' = map (\<lambda>m. if mb_id m = mb_id member then m\<lparr>mb_is_opted_in := False\<rparr> else m)
                        (members d)
     \<and> find_member_by_phone d' phone = Some (member\<lparr>mb_is_opted_in := False\<rparr>)
     \<and> optouts d' = optouts d @
          [\<lparr>o_id = next_id (map o_id (optouts d)), o_member_id = Some (mb_id member),
            o_phone_number = phone, reason = Some ''stop'', o_created_at = now\<rparr>]
     \<and> responses d' = responses d \<and> messages d' = messages d \<and> campaigns d' = campaigns d"
proof -
  have t: "t \<noteq> []" using stop by (rule stop_word_nonempty)
  have tb: "text_body ev = Inr (JStr t)" using body t by (rule text_body_str)
  have sc: "is_stop_command (JStr t) = Inr True"
    using stop t by (simp add: is_stop_command_def)
  have fm: "find_member_by_phone
              (write_member (mb_id member) (\<lambda>m. m\<lparr>mb_is_opted_in := False\<rparr>) d
                 \<lparr>optouts := os\<rparr>) phone
            = Some (member\<lparr>mb_is_opted_in := False\<rparr>)" for os
    using known
    by (simp add: find_member_by_phone_def write_member_def find_map_update)
  show ?thesis
    using sender known tb sc ph fm
    by (simp add: process_incoming_message_def Let_def sql_text_def write_member_def)
qed

theorem stop_command_opts_out_witness:
  "\<exists>d'. process_incoming_message pf0 60 db2 ev_stop_carol = Inr d'
     \<and> find_member_by_phone db2 ''15550003'' = Some carol
     \<and> \<not> mb_is_opted_in carol
     \<and> py_lower (py_strip '' STOP '') \<in> set stop_words
     \<and> find_member_by_phone d' ''15550003'' = Some carol
     \<and> length (optouts d') = length (optouts db2) + 1
     \<and> responses d' = responses db2"
proof -
  have sender: "dict_get ev_stop_carol ''from'' = JStr ''15550003''"
    by code_simp
  have ph: "''15550003'' \<noteq> []"
    by simp
  have known: "find_member_by_phone db2 ''15550003'' = Some carol"
    by code_simp
  have body: "dict_get ev_stop_carol ''text'' = JDict [(''body'', JStr '' STOP '')]"
    "map_of [(''body'', JStr '' STOP '')] ''body'' = Some (JStr '' STOP '')"
    by code_simp+
  have stop: "py_lower (py_strip '' STOP '') \<in> set stop_words"
    by code_simp
  have off: "\<not> mb_is_opted_in carol" "carol\<lparr>mb_is_opted_in := False\<rparr> = carol"
    by (simp_all add: carol_def)
  show ?thesis
    using stop_command_opts_out [OF sender ph known body stop, of pf0 60] known stop off
    by auto
qed

section \<open>Reply correlation\<close>

lemma latest_None: "latest ms = None \<longleftrightarrow> ms = []"
  by (induction ms) (auto split: option.splits)

lemma latest_Some:
  "latest ms = Some m \<Longrightarrow> m \<in> set ms \<and> (\<forall>x\<in>set ms. msg_created_at x \<le> msg_created_at m)"
proof (induction ms arbitrary: m)
  case Nil
  then show ?case by simp
next
  case (Cons a ms)
  then show ?case
    by (fastforce split: option.splits if_splits simp: latest_None)
qed

lemma last_message_None:
  "last_message d mid = None \<longleftrightarrow> (\<forall>m\<in>set (messages d). msg_member_id m \<noteq> mid)"
  by (auto simp: last_message_def latest_None filter_empty_conv)

lemma last_message_Some:
  assumes "last_message d mid = Some m"
  shows "m \<in> set (messages d) \<and> msg_member_id m = mid
       \<and> (\<forall>x\<in>set (messages d). msg_member_id x = mid \<longrightarrow> msg_created_at x \<le> msg_created_at m)"
  using latest_Some [OF assms [unfolded last_message_def]] by auto

text \<open>
  Claim C8. An inbound event from the phone of a known member that is not a stop command
  and from which \<^verbatim>\<open>extract_button_payload\<close> returns a payload. If no message row
  references the member, the handler returns the database unchanged: no response is
  created. Otherwise exactly one response is appended; it refers to a message of that
  member whose \<^verbatim>\<open>created_at\<close> no other message of the member exceeds, and carries
  that message's campaign id.
\<close>

theorem button_reply_recorded:
  assumes sender: "dict_get ev ''from'' = JStr phone" and ph: "phone \<noteq> []"
    and known: "find_member_by_phone d phone = Some member"
    and body: "text_body ev = Inr txt" and nostop: "is_stop_command txt = Inr False"
    and payload: "extract_button_payload pf ev = Inr (Some payload)"
  shows "((\<forall>m\<in>set (messages d). msg_member_id m \<noteq> mb_id member)
            \<longrightarrow> process_incoming_message pf now d ev = Inr d)
       \<and> ((\<exists>m\<in>set (messages d). msg_member_id m = mb_id member)
            \<longrightarrow> (\<exists>last_msg\<in>set (messages d).
                   msg_member_id last_msg = mb_id member
                 \<and> (\<forall>x\<in>set (messages d). msg_member_id x = mb_id member
                        \<longrightarrow> msg_created_at x \<le> msg_created_at last_msg)
                 \<and> process_incoming_message pf now d ev =
                     Inr (d\<lparr>responses := responses d @
                            [\<lparr>r_id = next_id (map r_id (responses d)),
                              r_message_id = msg_id last_msg,
                              r_member_id = mb_id member,
                              r_campaign_id = Some (msg_campaign_id last_msg),
                              response_type = Some (p_response_type payload),
                              button_title = Some (p_button_title payload),
                              button_id = Some (p_button_id payload),
                              received_at = now\<rparr>]\<rparr>)))"
proof (cases "last_message d (mb_id member)")
  case None
  then have "\<forall>m\<in>set (messages d). msg_member_id m \<noteq> mb_id member"
    by (simp add: last_message_None)
  moreover have "process_incoming_message pf now d ev = Inr d"
    using None sender ph known body nostop payload
    by (simp add: process_incoming_message_def Let_def sql_text_def)
  ultimately show ?thesis by blast
next
  case (Some last_msg)
  have res: "process_incoming_message pf now d ev =
      Inr (d\<lparr>responses := responses d @
                            [\<lparr>r_id = next_id (map r_id (responses d)),
                              r_message_id = msg_id last_msg,
                              r_member_id = mb_id member,
                              r_campaign_id = Some (msg_campaign_id last_msg),
                              response_type = Some (p_response_type payload),
                              button_title = Some (p_button_title payload),
                              button_id = Some (p_button_id payload),
                              received_at = now\<rparr>]\<rparr>)"
    using Some sender ph known body nostop payload
    by (simp add: process_incoming_message_def Let_def sql_text_def)
  from last_message_Some [OF Some] res show ?thesis by blast
qed

theorem button_reply_recorded_witness:
  "\<not> (\<exists>m\<in>set (messages db2). msg_member_id m = mb_id carol)
   \<and> process_incoming_message pf0 70 db2 (button_reply_from ''15550003'') = Inr db2
   \<and> (\<exists>m\<in>set (messages db2). msg_member_id m = mb_id alice)
   \<and> (\<exists>last_msg\<in>set (messages db2).
         msg_member_id last_msg = mb_id alice
       \<and> process_incoming_message pf0 70 db2 (button_reply_from ''15550001'') =
            Inr (db2\<lparr>responses := responses db2 @
                   [\<lparr>r_id = next_id (map r_id (responses db2)),
                     r_message_id = msg_id last_msg,
                     r_member_id = mb_id alice,
                     r_campaign_id = Some (msg_campaign_id last_msg),
                     response_type = Some ''button_reply'',
                     button_title = Some ''Renew'',
                     button_id = Some ''renew'',
                     received_at = 70\<rparr>]\<rparr>))"
proof -
  let ?p = "\<lparr>p_response_type = ''button_reply'', p_button_id = ''renew'',
             p_button_title = ''Renew''\<rparr>"
  have nostop: "is_stop_command (JStr []) = Inr False"
    by code_simp
  have c1: "dict_get (button_reply_from ''15550003'') ''from'' = JStr ''15550003''"
    and c2: "''15550003'' \<noteq> []"
    and c3: "find_member_by_phone db2 ''15550003'' = Some carol"
    and c4: "text_body (button_reply_from ''15550003'') = Inr (JStr [])"
    and c5: "extract_button_payload pf0 (button_reply_from ''15550003'') = Inr (Some ?p)"
    and c6: "\<forall>m\<in>set (messages db2). msg_member_id m \<noteq> mb_id carol"
    by code_simp+
  have a1: "dict_get (button_reply_from ''15550001'') ''from'' = JStr ''15550001''"
    and a2: "''15550001'' \<noteq> []"
    and a3: "find_member_by_phone db2 ''15550001'' = Some alice"
    and a4: "text_body (button_reply_from ''15550001'') = Inr (JStr [])"
    and a5: "extract_button_payload pf0 (button_reply_from ''15550001'') = Inr (Some ?p)"
    and a6: "\<exists>m\<in>set (messages db2). msg_member_id m = mb_id alice"
    by code_simp+
  have carol_case: "process_incoming_message pf0 70 db2 (button_reply_from ''15550003'') = Inr db2"
    using button_reply_recorded [OF c1 c2 c3 c4 nostop c5, of 70] c6 by blast
  have alice_case: "\<exists>last_msg\<in>set (messages db2).
         msg_member_id last_msg = mb_id alice
       \<and> process_incoming_message pf0 70 db2 (button_reply_from ''15550001'') =
            Inr (db2\<lparr>responses := responses db2 @
                   [\<lparr>r_id = next_id (map r_id (responses db2)),
                     r_message_id = msg_id last_msg,
                     r_member_id = mb_id alice,
                     r_campaign_id = Some (msg_campaign_id last_msg),
                     response_type = Some ''button_reply'',
                     button_title = Some ''Renew'',
                     button_id = Some ''renew'',
                     received_at = 70\<rparr>]\<rparr>)"
    using button_reply_recorded [OF a1 a2 a3 a4 nostop a5, of 70] a6 by auto
  have c7: "\<not> (\<exists>m\<in>set (messages db2). msg_member_id m = mb_id carol)"
    using c6 by blast
  show ?thesis
    using c7 carol_case a6 alice_case by blast
qed

section \<open>Campaign creation\<close>

lemma fold_max_ge: "(a::int) \<le> fold max ids a"
  by (induction ids arbitrary: a) (auto intro: order_trans [OF max.cobounded2])

lemma fold_max_upper: "i \<in> set ids \<Longrightarrow> (i::int) \<le> fold max ids a"
proof (induction ids arbitrary: a)
  case Nil
  then show ?case by simp
next
  case (Cons x xs)
  show ?case
  proof (cases "i = x")
    case True
    have "x \<le> max x a" by simp
    also have "\<dots> \<le> fold max xs (max x a)" by (rule fold_max_ge)
    finally show ?thesis using True by simp
  next
    case False
    with Cons show ?thesis by simp
  qed
qed

lemma next_id_fresh: "i \<in> set ids \<Longrightarrow> i < next_id ids"
  using fold_max_upper [of i ids 0] by (simp add: next_id_def)

lemma next_id_positive: "0 < next_id ids"
  using fold_max_ge [of 0 ids] by (simp add: next_id_def)

lemma queue_messages_campaign:
  "m \<in> set (queue_messages k cid tname now ms) \<Longrightarrow> msg_campaign_id m = cid \<and> msg_status m = QUEUED"
  by (induction ms arbitrary: k) auto

lemma queue_messages_members:
  "map msg_member_id (queue_messages k cid tname now ms) = map mb_id ms"
  by (induction ms arbitrary: k) auto

lemma queue_messages_length:
  "length (queue_messages k cid tname now ms) = length ms"
  by (induction ms arbitrary: k) auto

lemma queue_messages_ids:
  "map msg_id (queue_messages k cid tname now ms) = map (\<lambda>j. k + int j) [0..<length ms]"
proof (induction ms arbitrary: k)
  case Nil
  then show ?case by simp
next
  case (Cons m ms)
  have "map (\<lambda>j. k + int j) [0..<Suc (length ms)]
        = k # map (\<lambda>j. k + 1 + int j) [0..<length ms]"
    by (simp add: upt_conv_Cons map_Suc_upt [symmetric] del: upt_Suc)
  with Cons show ?case by simp
qed

lemma create_campaign_and_queue_result:
  assumes "create_campaign_and_queue now d req = Inr (d', resp, task)"
  shows "filter mb_is_opted_in (members d) \<noteq> []
       \<and> campaign_id resp = next_id (map c_id (campaigns d))
       \<and> members d' = members d
       \<and> campaigns d' = campaigns d @
           [\<lparr>c_id = next_id (map c_id (campaigns d)),
             c_name = campaign_name req,
             c_template_name = template_name req,
             c_description = description req,
             target_count = int (length (filter mb_is_opted_in (members d))),
             sent_count = 0, delivered_count = 0, read_count = 0, failed_count = 0,
             c_status_filter = None, c_plan_filter = None, c_city_filter = None,
             c_expiry_days_filter = None,
             c_status = ''queued'', c_created_at = now, c_sent_at = None\<rparr>]
       \<and> messages d' = messages d @
           queue_messages (next_id (map msg_id (messages d))) (next_id (map c_id (campaigns d)))
             (template_name req) now (filter mb_is_opted_in (members d))
       \<and> responses d' = responses d \<and> optouts d' = optouts d"
  using assms
  by (auto simp: create_campaign_and_queue_def Let_def split: if_splits)

text \<open>
  Claim C7. In a database whose member ids are unique and whose messages refer to existing
  campaigns, a member whose opt-in flag is false when \<^verbatim>\<open>create_campaign_and_queue\<close> runs
  is referenced by no message of the campaign it creates.
\<close>

theorem opted_out_never_queued:
  assumes created: "create_campaign_and_queue now d req = Inr (d', resp, task)"
    and pk: "distinct (map mb_id (members d))"
    and fk: "\<forall>m\<in>set (messages d). msg_campaign_id m \<in> c_id ` set (campaigns d)"
    and mb: "mb \<in> set (members d)" and out: "\<not> mb_is_opted_in mb"
  shows "\<forall>m\<in>set (messages d'). msg_campaign_id m = campaign_id resp \<longrightarrow> msg_member_id m \<noteq> mb_id mb"
proof (intro ballI impI)
  fix m
  assume m: "m \<in> set (messages d')" and c: "msg_campaign_id m = campaign_id resp"
  note r = create_campaign_and_queue_result [OF created]
  let ?new = "queue_messages (next_id (map msg_id (messages d))) (next_id (map c_id (campaigns d)))
             (template_name req) now (filter mb_is_opted_in (members d))"
  have "m \<notin> set (messages d)"
  proof
    assume "m \<in> set (messages d)"
    with fk have "msg_campaign_id m \<in> set (map c_id (campaigns d))" by auto
    then have "msg_campaign_id m < next_id (map c_id (campaigns d))" by (rule next_id_fresh)
    with c r show False by simp
  qed
  with m r have "m \<in> set ?new" by auto
  then have "msg_member_id m \<in> set (map msg_member_id ?new)" by simp
  then have "msg_member_id m \<in> mb_id ` set (filter mb_is_opted_in (members d))"
    by (simp add: queue_messages_members)
  then obtain x where x: "x \<in> set (members d)" "mb_is_opted_in x" "msg_member_id m = mb_id x"
    by auto
  show "msg_member_id m \<noteq> mb_id mb"
  proof
    assume "msg_member_id m = mb_id mb"
    with x have "mb_id x = mb_id mb" by simp
    with pk x(1) mb have "x = mb" by (simp add: distinct_map inj_on_def)
    with x(2) out show False by simp
  qed
qed

theorem opted_out_never_queued_witness:
  "create_campaign_and_queue 10 db0 req0 =
      Inr (db1, \<lparr>campaign_id = 1, message = ''Campaign created and queued.'',
                 total_recipients = 2, queued_count = 2, dispatch_started = False\<rparr>, None)
   \<and> distinct (map mb_id (members db0))
   \<and> messages db0 = []
   \<and> carol \<in> set (members db0) \<and> \<not> mb_is_opted_in carol
   \<and> \<not> (\<exists>m\<in>set (messages db1). msg_campaign_id m = 1 \<and> msg_member_id m = mb_id carol)"
proof -
  let ?resp = "\<lparr>campaign_id = 1, message = ''Campaign created and queued.'',
                 total_recipients = 2, queued_count = 2, dispatch_started = False\<rparr>"
  have created: "create_campaign_and_queue 10 db0 req0 = Inr (db1, ?resp, None)"
    by code_simp
  have pk: "distinct (map mb_id (members db0))"
    by code_simp
  have fk: "\<forall>m\<in>set (messages db0). msg_campaign_id m \<in> c_id ` set (campaigns db0)"
    by (simp add: db0_def)
  have mb: "carol \<in> set (members db0)"
    by (simp add: db0_def)
  have out: "\<not> mb_is_opted_in carol"
    by (simp add: carol_def)
  have none: "messages db0 = []"
    by (simp add: db0_def)
  show ?thesis
    using created pk none mb out opted_out_never_queued [OF created pk fk mb out]
    by auto
qed

text \<open>
  Claim C4 at a concrete request. The request asks for members of status \<^verbatim>\<open>active\<close>;
  \<^verbatim>\<open>GET /members\<close> with the same filter does not list the member \<open>bob\<close>, whose status is
  \<^verbatim>\<open>expired\<close>. \<^verbatim>\<open>create_campaign_and_queue\<close> never reads the filter: the campaign counts
  two recipients and a message is queued for \<open>bob\<close>.
\<close>

theorem create_campaign_ignores_filter:
  "status_filter req0 = Some ''active''
   \<and> mb_status bob = Some ''expired'' \<and> mb_is_opted_in bob \<and> bob \<in> set (members db0)
   \<and> list_members 0 1000 (status_filter req0) (city_filter req0) (plan_filter req0) (Some True) db0
       = [alice]
   \<and> create_campaign_and_queue 10 db0 req0 =
       Inr (db1, \<lparr>campaign_id = 1, message = ''Campaign created and queued.'',
                  total_recipients = 2, queued_count = 2, dispatch_started = False\<rparr>, None)
   \<and> map target_count (campaigns db1) = [2]
   \<and> map (\<lambda>m. (msg_campaign_id m, msg_member_id m, msg_status m)) (messages db1)
       = [(1, mb_id alice, QUEUED), (1, mb_id bob, QUEUED)]"
  by code_simp

section \<open>Status events\<close>

lemma status_event_lookup:
  assumes "dict_get ev ''id'' = JStr w" and "w \<noteq> []"
    and "dict_get ev ''status'' = JStr s" and "s \<noteq> []"
  shows "extract_message_status ev =
           Some \<lparr>info_whatsapp_message_id = JStr w, info_status = JStr s,
                 info_error = (case dict_get ev ''errors'' of JList (e # es) \<Rightarrow> e | _ \<Rightarrow> JNull)\<rparr>"
proof -
  have "ev \<noteq> []" using assms(1) by (auto simp: dict_get_def)
  then show ?thesis using assms by (simp add: extract_message_status_def Let_def)
qed

lemma bump_campaign_found:
  "find_campaign d cid = Some c \<Longrightarrow>
     bump_campaign cid f (write_message i g d) = Inr (write_campaign cid f (write_message i g d))"
  by (simp add: bump_campaign_def find_campaign_def write_message_def)

lemma process_status_update_matched:
  assumes id: "dict_get ev ''id'' = JStr w" "w \<noteq> []"
    and st: "dict_get ev ''status'' = JStr s" "s \<noteq> []"
    and msg: "find_message_by_wamid d w = Some msg"
    and camp: "find_campaign d (msg_campaign_id msg) = Some c"
  shows "process_status_update pf now d ev = Inr
     (if s = ''sent'' then
        write_message (msg_id msg) (\<lambda>m. m\<lparr>msg_status := SENT, msg_sent_at := Some now\<rparr>) d
      else if s = ''delivered'' then
        write_campaign (msg_campaign_id msg) (\<lambda>c. c\<lparr>delivered_count := delivered_count c + 1\<rparr>)
          (write_message (msg_id msg) (\<lambda>m. m\<lparr>msg_status := DELIVERED, delivered_at := Some now\<rparr>) d)
      else if s = ''read'' then
        write_campaign (msg_campaign_id msg) (\<lambda>c. c\<lparr>read_count := read_count c + 1\<rparr>)
          (write_message (msg_id msg) (\<lambda>m. m\<lparr>msg_status := READ, read_at := Some now\<rparr>) d)
      else if s = ''failed'' then
        write_campaign (msg_campaign_id msg) (\<lambda>c. c\<lparr>failed_count := failed_count c + 1\<rparr>)
          (write_message (msg_id msg)
             (\<lambda>m. m\<lparr>msg_status := FAILED,
                     error_message := Some (py_str pf
                       (case dict_get ev ''errors'' of JList (e # es) \<Rightarrow> e | _ \<Rightarrow> JNull))\<rparr>) d)
      else d)"
  using msg id(2) bump_campaign_found [OF camp]
  by (simp add: process_status_update_def status_event_lookup [OF id st] Let_def sql_text_def)

lemma find_message_after_write:
  assumes "find_message_by_wamid d w = Some msg"
    and "\<And>m. whatsapp_message_id (f m) = whatsapp_message_id m"
  shows "find_message_by_wamid (write_campaign cid g (write_message (msg_id msg) f d)) w = Some (f msg)"
    and "find_message_by_wamid (write_message (msg_id msg) f d) w = Some (f msg)"
  using assms
  by (simp_all add: find_message_by_wamid_def write_campaign_def write_message_def find_map_update)

lemma find_campaign_after_write:
  assumes "find_campaign d cid = Some c" and "\<And>x. c_id (g x) = c_id x"
  shows "find_campaign (write_campaign cid g (write_message i f d)) cid = Some (g c)"
    and "find_campaign (write_message i f d) cid = Some c"
proof -
  have "c_id c = cid"
    using assms(1) by (auto simp: find_campaign_def dest: find_Some_in)
  then show "find_campaign (write_campaign cid g (write_message i f d)) cid = Some (g c)"
    using assms
    by (simp add: find_campaign_def write_campaign_def write_message_def find_map_update)
  show "find_campaign (write_message i f d) cid = Some c"
    using assms(1) by (simp add: find_campaign_def write_message_def)
qed

text \<open>
  Claim C2, as the code has it. A status event whose id is the provider id of a message
  (of an existing campaign) is applied whatever the current status of that message is:
  \<^verbatim>\<open>sent\<close> sets the status and \<^verbatim>\<open>sent_at\<close> and leaves the campaigns alone;
  \<^verbatim>\<open>delivered\<close>, \<^verbatim>\<open>read\<close> and \<^verbatim>\<open>failed\<close> set the status, stamp
  \<^verbatim>\<open>delivered_at\<close>, \<^verbatim>\<open>read_at\<close> or the error text, and add one to the matching
  counter of the campaign; any other status text changes nothing. No hypothesis restricts
  \<open>msg_status msg\<close>.
\<close>

theorem status_event_applied_in_any_state:
  assumes id: "dict_get ev ''id'' = JStr w" "w \<noteq> []"
    and st: "dict_get ev ''status'' = JStr s" "s \<noteq> []"
    and msg: "find_message_by_wamid d w = Some msg"
    and camp: "find_campaign d (msg_campaign_id msg) = Some c"
  shows "\<exists>d'. process_status_update pf now d ev = Inr d'
     \<and> (s = ''sent'' \<longrightarrow>
          find_message_by_wamid d' w = Some (msg\<lparr>msg_status := SENT, msg_sent_at := Some now\<rparr>)
        \<and> campaigns d' = campaigns d)
     \<and> (s = ''delivered'' \<longrightarrow>
          find_message_by_wamid d' w
            = Some (msg\<lparr>msg_status := DELIVERED, delivered_at := Some now\<rparr>)
        \<and> find_campaign d' (msg_campaign_id msg)
            = Some (c\<lparr>delivered_count := delivered_count c + 1\<rparr>))
     \<and> (s = ''read'' \<longrightarrow>
          find_message_by_wamid d' w = Some (msg\<lparr>msg_status := READ, read_at := Some now\<rparr>)
        \<and> find_campaign d' (msg_campaign_id msg) = Some (c\<lparr>read_count := read_count c + 1\<rparr>))
     \<and> (s = ''failed'' \<longrightarrow>
          (\<exists>e. find_message_by_wamid d' w
                 = Some (msg\<lparr>msg_status := FAILED, error_message := Some e\<rparr>))
        \<and> find_campaign d' (msg_campaign_id msg)
            = Some (c\<lparr>failed_count := failed_count c + 1\<rparr>))
     \<and> (s \<notin> {''sent'', ''delivered'', ''read'', ''failed''} \<longrightarrow> d' = d)"
  unfolding process_status_update_matched [OF id st msg camp]
  using find_message_after_write [OF msg] find_campaign_after_write [OF camp]
  by (auto simp: write_message_def)

theorem status_event_applied_in_any_state_witness:
  "msg_status (hd (messages db_read)) = READ
   \<and> find_message_by_wamid db_read ''wamid.A'' = Some (hd (messages db_read))
   \<and> find_campaign db_read (msg_campaign_id (hd (messages db_read)))
        = Some (hd (campaigns db_read))
   \<and> (\<exists>d'. process_status_update pf0 90 db_read st_delivered_A = Inr d'
        \<and> find_message_by_wamid d' ''wamid.A''
             = Some ((hd (messages db_read))\<lparr>msg_status := DELIVERED, delivered_at := Some 90\<rparr>)
        \<and> find_campaign d' (msg_campaign_id (hd (messages db_read)))
             = Some ((hd (campaigns db_read))
                      \<lparr>delivered_count := delivered_count (hd (campaigns db_read)) + 1\<rparr>))"
proof -
  have id: "dict_get st_delivered_A ''id'' = JStr ''wamid.A''" "''wamid.A'' \<noteq> []"
    and st: "dict_get st_delivered_A ''status'' = JStr ''delivered''" "''delivered'' \<noteq> []"
    and msg: "find_message_by_wamid db_read ''wamid.A'' = Some (hd (messages db_read))"
    and camp: "find_campaign db_read (msg_campaign_id (hd (messages db_read)))
                 = Some (hd (campaigns db_read))"
    and rd: "msg_status (hd (messages db_read)) = READ"
    by code_simp+
  show ?thesis
    using status_event_applied_in_any_state [OF id st msg camp, of pf0 90] msg camp rd
    by auto
qed

theorem read_message_reverts_to_delivered:
  "map msg_status (messages db_read) = [READ, FAILED]
   \<and> map delivered_at (messages db_read) = [Some 80, None]
   \<and> map counters (campaigns db_read) = [(1, 1, 1, 1)]
   \<and> process_status_update pf0 90 db_read st_delivered_A = Inr db_read_then_delivered
   \<and> map msg_status (messages db_read_then_delivered) = [DELIVERED, FAILED]
   \<and> map delivered_at (messages db_read_then_delivered) = [Some 90, None]
   \<and> map counters (campaigns db_read_then_delivered) = [(1, 2, 1, 1)]
   \<and> map msg_status (messages db2) = [SENT, FAILED]
   \<and> map counters (campaigns db2) = [(1, 0, 0, 1)]
   \<and> process_status_update pf0 80 db2 st_read_A = Inr db_read_early
   \<and> map msg_status (messages db_read_early) = [READ, FAILED]
   \<and> map counters (campaigns db_read_early) = [(1, 0, 1, 1)]"
  by code_simp

lemma status_update_step:
  assumes id: "dict_get ev ''id'' = JStr w" "w \<noteq> []"
    and st: "dict_get ev ''status'' = JStr s" "s \<noteq> []"
    and msg: "find_message_by_wamid d w = Some msg"
    and camp: "find_campaign d (msg_campaign_id msg) = Some c"
  shows "\<exists>d' msg' c'. process_status_update pf now d ev = Inr d'
     \<and> find_message_by_wamid d' w = Some msg'
     \<and> msg_campaign_id msg' = msg_campaign_id msg
     \<and> find_campaign d' (msg_campaign_id msg) = Some c'
     \<and> counters c' =
          (sent_count c,
           delivered_count c + (if s = ''delivered'' then 1 else 0),
           read_count c + (if s = ''read'' then 1 else 0),
           failed_count c + (if s = ''failed'' then 1 else 0))
     \<and> (s \<notin> {''delivered'', ''read'', ''failed''} \<longrightarrow> campaigns d' = campaigns d)"
  unfolding process_status_update_matched [OF id st msg camp]
  using find_message_after_write [OF msg] find_campaign_after_write [OF camp] msg camp
  by (auto simp: write_message_def counters_def)

text \<open>
  Claim C3, as the code has it. Applying to a matched message the same status event twice
  (at any two times) succeeds both times. A \<^verbatim>\<open>delivered\<close>, \<^verbatim>\<open>read\<close> or
  \<^verbatim>\<open>failed\<close> event adds one to its counter at each application, two in all; an event
  with any other status, \<^verbatim>\<open>sent\<close> included, leaves all campaigns as they were. So the
  counters after the second application equal those after the first exactly when the
  status is none of the three.
\<close>

theorem status_event_counted_on_every_application:
  assumes id: "dict_get ev ''id'' = JStr w" "w \<noteq> []"
    and st: "dict_get ev ''status'' = JStr s" "s \<noteq> []"
    and msg: "find_message_by_wamid d w = Some msg"
    and camp: "find_campaign d (msg_campaign_id msg) = Some c"
  shows "\<exists>d1 d2 c1 c2.
       process_status_update pf now d ev = Inr d1
     \<and> process_status_update pf now' d1 ev = Inr d2
     \<and> find_campaign d1 (msg_campaign_id msg) = Some c1
     \<and> find_campaign d2 (msg_campaign_id msg) = Some c2
     \<and> (s = ''delivered'' \<longrightarrow> delivered_count c1 = delivered_count c + 1
                               \<and> delivered_count c2 = delivered_count c + 2)
     \<and> (s = ''read'' \<longrightarrow> read_count c1 = read_count c + 1 \<and> read_count c2 = read_count c + 2)
     \<and> (s = ''failed'' \<longrightarrow> failed_count c1 = failed_count c + 1
                            \<and> failed_count c2 = failed_count c + 2)
     \<and> (s \<notin> {''delivered'', ''read'', ''failed''}
           \<longrightarrow> campaigns d1 = campaigns d \<and> campaigns d2 = campaigns d)
     \<and> (counters c2 = counters c1 \<longleftrightarrow> s \<notin> {''delivered'', ''read'', ''failed''})"
proof -
  from status_update_step [OF id st msg camp, of pf now]
  obtain d1 msg1 c1 where s1: "process_status_update pf now d ev = Inr d1"
    and m1: "find_message_by_wamid d1 w = Some msg1"
    and mc: "msg_campaign_id msg1 = msg_campaign_id msg"
    and c1: "find_campaign d1 (msg_campaign_id msg) = Some c1"
    and n1: "counters c1 =
          (sent_count c,
           delivered_count c + (if s = ''delivered'' then 1 else 0),
           read_count c + (if s = ''read'' then 1 else 0),
           failed_count c + (if s = ''failed'' then 1 else 0))"
    and u1: "s \<notin> {''delivered'', ''read'', ''failed''} \<longrightarrow> campaigns d1 = campaigns d"
    by blast
  have c1': "find_campaign d1 (msg_campaign_id msg1) = Some c1"
    using c1 mc by simp
  from status_update_step [OF id st m1 c1', of pf now']
  obtain d2 c2 where s2: "process_status_update pf now' d1 ev = Inr d2"
    and c2: "find_campaign d2 (msg_campaign_id msg) = Some c2"
    and n2: "counters c2 =
          (sent_count c1,
           delivered_count c1 + (if s = ''delivered'' then 1 else 0),
           read_count c1 + (if s = ''read'' then 1 else 0),
           failed_count c1 + (if s = ''failed'' then 1 else 0))"
    and u2: "s \<notin> {''delivered'', ''read'', ''failed''} \<longrightarrow> campaigns d2 = campaigns d1"
    using mc by auto
  have facts: "(s = ''delivered'' \<longrightarrow> delivered_count c1 = delivered_count c + 1
                               \<and> delivered_count c2 = delivered_count c + 2)
     \<and> (s = ''read'' \<longrightarrow> read_count c1 = read_count c + 1 \<and> read_count c2 = read_count c + 2)
     \<and> (s = ''failed'' \<longrightarrow> failed_count c1 = failed_count c + 1
                            \<and> failed_count c2 = failed_count c + 2)
     \<and> (counters c2 = counters c1 \<longleftrightarrow> s \<notin> {''delivered'', ''read'', ''failed''})"
    using n1 n2 by (auto simp: counters_def)
  show ?thesis
    using s1 s2 c1 c2 u1 u2 facts by auto
qed

theorem status_event_counted_on_every_application_witness:
  "find_message_by_wamid db2 ''wamid.A'' = Some (hd (messages db2))
   \<and> find_campaign db2 (msg_campaign_id (hd (messages db2))) = Some (hd (campaigns db2))
   \<and> (\<exists>d1 d2 c1 c2.
         process_status_update pf0 80 db2 st_delivered_A = Inr d1
       \<and> process_status_update pf0 81 d1 st_delivered_A = Inr d2
       \<and> find_campaign d1 (msg_campaign_id (hd (messages db2))) = Some c1
       \<and> find_campaign d2 (msg_campaign_id (hd (messages db2))) = Some c2
       \<and> delivered_count c1 = delivered_count (hd (campaigns db2)) + 1
       \<and> delivered_count c2 = delivered_count (hd (campaigns db2)) + 2
       \<and> counters c2 \<noteq> counters c1)"
proof -
  have id: "dict_get st_delivered_A ''id'' = JStr ''wamid.A''" "''wamid.A'' \<noteq> []"
    and st: "dict_get st_delivered_A ''status'' = JStr ''delivered''" "''delivered'' \<noteq> []"
    and msg: "find_message_by_wamid db2 ''wamid.A'' = Some (hd (messages db2))"
    and camp: "find_campaign db2 (msg_campaign_id (hd (messages db2)))
                 = Some (hd (campaigns db2))"
    by code_simp+
  show ?thesis
    using status_event_counted_on_every_application [OF id st msg camp, of pf0 80 81] msg camp
    by auto
qed

theorem delivered_twice_counts_twice:
  "map msg_status (messages db2) = [SENT, FAILED]
   \<and> map counters (campaigns db2) = [(1, 0, 0, 1)]
   \<and> process_status_update pf0 80 db2 st_delivered_A = Inr db_delivered
   \<and> map msg_status (messages db_delivered) = [DELIVERED, FAILED]
   \<and> map counters (campaigns db_delivered) = [(1, 1, 0, 1)]
   \<and> process_status_update pf0 81 db_delivered st_delivered_A = Inr db_delivered_twice
   \<and> map msg_status (messages db_delivered_twice) = [DELIVERED, FAILED]
   \<and> map counters (campaigns db_delivered_twice) = [(1, 2, 0, 1)]"
  by code_simp

section \<open>Dispatch\<close>

lemma send_one_attempt:
  "send_one wa cl clock camp k msg d =
     (case attempt wa cl camp d k msg of
        SendOk w \<Rightarrow> mark_sent (c_id camp) (msg_id msg) w (clock (Suc k)) d
      | SendFailed e \<Rightarrow> mark_failed (c_id camp) (msg_id msg) e d)"
  by (simp add: send_one_def attempt_def split: option.splits)

lemma send_one_members: "members (send_one wa cl clock camp k msg d) = members d"
  by (simp add: send_one_attempt mark_sent_def mark_failed_def write_campaign_def
      write_message_def split: send_result.splits)

lemma attempt_members: "members d' = members d \<Longrightarrow> attempt wa cl camp d' k msg = attempt wa cl camp d k msg"
  by (simp add: attempt_def find_member_def)

lemma outcomes_members: "members d' = members d \<Longrightarrow> outcomes wa cl camp d' k msgs = outcomes wa cl camp d k msgs"
  by (induction msgs arbitrary: k) (simp_all add: attempt_def find_member_def)

lemma outcomes_length: "length (outcomes wa cl camp d k msgs) = length msgs"
  by (induction msgs arbitrary: k) simp_all

lemma outcomes_nth:
  "j < length msgs \<Longrightarrow> outcomes wa cl camp d k msgs ! j = attempt wa cl camp d (k + j) (msgs ! j)"
proof (induction msgs arbitrary: k j)
  case Nil
  then show ?case by simp
next
  case (Cons m ms)
  then show ?case by (cases j) simp_all
qed

lemma send_loop_length: "length (send_loop wa cl clock camp k msgs d) = length msgs"
  by (induction msgs arbitrary: k d) (simp_all add: Let_def)

text \<open>Each commit of the loop is one iteration applied to the commit before it.\<close>

lemma send_loop_nth:
  "j < length msgs \<Longrightarrow>
     (d # send_loop wa cl clock camp k msgs d) ! Suc j =
       send_one wa cl clock camp (k + j) (msgs ! j) ((d # send_loop wa cl clock camp k msgs d) ! j)"
proof (induction msgs arbitrary: k d j)
  case Nil
  then show ?case by simp
next
  case (Cons m ms)
  show ?case
  proof (cases j)
    case 0
    then show ?thesis by (simp add: Let_def)
  next
    case (Suc i)
    with Cons.prems have "i < length ms" by simp
    from Cons.IH [OF this, of "send_one wa cl clock camp k m d" "Suc k"] Suc
    show ?thesis by (simp add: Let_def)
  qed
qed

lemma send_loop_members:
  "\<forall>x\<in>set (send_loop wa cl clock camp k msgs d). members x = members d"
proof (induction msgs arbitrary: k d)
  case Nil
  show ?case by simp
next
  case (Cons m ms)
  let ?d' = "send_one wa cl clock camp k m d"
  have "\<forall>x\<in>set (send_loop wa cl clock camp (Suc k) ms ?d'). members x = members d"
    using Cons.IH [of "Suc k" ?d'] by (simp add: send_one_members)
  then show ?case
    by (simp add: Let_def send_one_members)
qed

lemma send_one_eq:
  "send_one wa cl clock camp k msg d =
     write_campaign (c_id camp) (tallied (attempt wa cl camp d k msg))
       (write_message (msg_id msg) (recorded (attempt wa cl camp d k msg) (clock (Suc k))) d)"
  by (cases "attempt wa cl camp d k msg")
    (simp_all add: send_one_attempt mark_sent_def mark_failed_def recorded_def [abs_def]
      tallied_def [abs_def])

lemma recorded_keeps [simp]:
  "msg_id (recorded r t m) = msg_id m"
  "msg_campaign_id (recorded r t m) = msg_campaign_id m"
  "msg_member_id (recorded r t m) = msg_member_id m"
  "msg_status (recorded r t m) \<noteq> QUEUED"
  by (simp_all add: recorded_def split: send_result.splits)

lemma tallied_keeps [simp]:
  "c_id (tallied r c) = c_id c"
  "target_count (tallied r c) = target_count c"
  "delivered_count (tallied r c) = delivered_count c"
  "read_count (tallied r c) = read_count c"
  by (simp_all add: tallied_def split: send_result.splits)

lemma send_one_messages:
  "messages (send_one wa cl clock camp k msg d) =
     map (\<lambda>m. if msg_id m = msg_id msg
               then recorded (attempt wa cl camp d k msg) (clock (Suc k)) m else m) (messages d)"
  by (simp add: send_one_eq write_campaign_def write_message_def)

lemma send_one_campaigns:
  "campaigns (send_one wa cl clock camp k msg d) =
     map (\<lambda>c. if c_id c = c_id camp then tallied (attempt wa cl camp d k msg) c else c)
       (campaigns d)"
  by (simp add: send_one_eq write_campaign_def write_message_def)

lemma loop_end_Cons:
  "last (d # send_loop wa cl clock camp k (m # ms) d) =
     last (send_one wa cl clock camp k m d
           # send_loop wa cl clock camp (Suc k) ms (send_one wa cl clock camp k m d))"
  by (simp add: Let_def)

lemma loop_end_ids:
  "map msg_id (messages (last (d # send_loop wa cl clock camp k msgs d))) = map msg_id (messages d)"
proof (induction msgs arbitrary: k d)
  case Nil
  show ?case by simp
next
  case (Cons m ms)
  have "map msg_id (messages (send_one wa cl clock camp k m d)) = map msg_id (messages d)"
    by (simp add: send_one_messages o_def cong: map_cong)
  with Cons.IH [of "send_one wa cl clock camp k m d" "Suc k"] show ?case
    by (simp only: loop_end_Cons)
qed

lemma loop_end_untouched:
  assumes "x \<in> set (messages d)" and "msg_id x \<notin> msg_id ` set msgs"
  shows "x \<in> set (messages (last (d # send_loop wa cl clock camp k msgs d)))"
  using assms
proof (induction msgs arbitrary: k d)
  case Nil
  then show ?case by simp
next
  case (Cons m ms)
  let ?d' = "send_one wa cl clock camp k m d"
  from Cons.prems have "x \<in> set (messages ?d')"
    by (force simp: send_one_messages)
  moreover from Cons.prems have "msg_id x \<notin> msg_id ` set ms" by simp
  ultimately have "x \<in> set (messages (last (?d' # send_loop wa cl clock camp (Suc k) ms ?d')))"
    by (rule Cons.IH)
  then show ?case by (simp only: loop_end_Cons)
qed

lemma loop_end_processed:
  assumes "j < length msgs" and "msgs ! j \<in> set (messages d)" and "distinct (map msg_id msgs)"
  shows "recorded (outcomes wa cl camp d k msgs ! j) (clock (Suc (k + j))) (msgs ! j)
           \<in> set (messages (last (d # send_loop wa cl clock camp k msgs d)))"
  using assms
proof (induction msgs arbitrary: k d j)
  case Nil
  then show ?case by simp
next
  case (Cons m ms)
  let ?d' = "send_one wa cl clock camp k m d"
  have mem: "members ?d' = members d" by (rule send_one_members)
  show ?case
  proof (cases j)
    case 0
    with Cons.prems have "m \<in> set (messages d)" by simp
    then have "recorded (attempt wa cl camp d k m) (clock (Suc k)) m \<in> set (messages ?d')"
      by (force simp: send_one_messages)
    moreover have "msg_id (recorded (attempt wa cl camp d k m) (clock (Suc k)) m) \<notin> msg_id ` set ms"
      using Cons.prems(3) by simp
    ultimately have "recorded (attempt wa cl camp d k m) (clock (Suc k)) m
        \<in> set (messages (last (?d' # send_loop wa cl clock camp (Suc k) ms ?d')))"
      by (rule loop_end_untouched)
    with 0 show ?thesis by (simp only: loop_end_Cons) simp
  next
    case (Suc i)
    with Cons.prems have i: "i < length ms" and x: "ms ! i \<in> set (messages d)"
      and dist: "distinct (map msg_id ms)" and fresh: "msg_id m \<notin> msg_id ` set ms"
      by auto
    from i have "msg_id (ms ! i) \<in> msg_id ` set ms"
      by (intro imageI nth_mem)
    with fresh have ne: "msg_id (ms ! i) \<noteq> msg_id m"
      by auto
    from x ne have "ms ! i \<in> set (messages ?d')"
      by (force simp: send_one_messages)
    from Cons.IH [OF i this dist, of "Suc k"]
    have "recorded (outcomes wa cl camp ?d' (Suc k) ms ! i) (clock (Suc (Suc k + i))) (ms ! i)
        \<in> set (messages (last (?d' # send_loop wa cl clock camp (Suc k) ms ?d')))" .
    then show ?thesis
      using Suc by (simp only: loop_end_Cons) (simp add: outcomes_members [OF mem])
  qed
qed

lemma queued_of_send_one:
  "queued_of cid (send_one wa cl clock camp k m d) =
     filter (\<lambda>x. msg_id x \<noteq> msg_id m) (queued_of cid d)"
proof -
  have "filter (\<lambda>x. msg_campaign_id x = cid \<and> msg_status x = QUEUED)
          (map (\<lambda>x. if msg_id x = i then recorded r t x else x) xs)
        = filter (\<lambda>x. msg_id x \<noteq> i) (filter (\<lambda>x. msg_campaign_id x = cid \<and> msg_status x = QUEUED) xs)"
    for i r t xs
    by (induction xs) auto
  then show ?thesis
    by (simp add: queued_of_def send_one_messages)
qed

lemma loop_end_queued:
  "queued_of cid (last (d # send_loop wa cl clock camp k msgs d)) =
     filter (\<lambda>x. msg_id x \<notin> msg_id ` set msgs) (queued_of cid d)"
proof (induction msgs arbitrary: k d)
  case Nil
  show ?case by simp
next
  case (Cons m ms)
  let ?d' = "send_one wa cl clock camp k m d"
  have "queued_of cid (last (?d' # send_loop wa cl clock camp (Suc k) ms ?d')) =
          filter (\<lambda>x. msg_id x \<notin> msg_id ` set ms) (queued_of cid ?d')"
    by (rule Cons.IH)
  also have "\<dots> = filter (\<lambda>x. msg_id x \<notin> msg_id ` set (m # ms)) (queued_of cid d)"
    by (auto simp: queued_of_send_one intro: filter_cong)
  finally show ?case by (simp only: loop_end_Cons)
qed

lemma fold_tallied_fields:
  "c_id (fold tallied rs c) = c_id c"
  "c_status (fold tallied rs c) = c_status c"
  "c_sent_at (fold tallied rs c) = c_sent_at c"
  "target_count (fold tallied rs c) = target_count c"
  "delivered_count (fold tallied rs c) = delivered_count c"
  "read_count (fold tallied rs c) = read_count c"
  "sent_count (fold tallied rs c) = sent_count c + int (length (filter is_ok rs))"
  "failed_count (fold tallied rs c) = failed_count c + int (length (filter (\<lambda>r. \<not> is_ok r) rs))"
  by (induction rs arbitrary: c; simp add: tallied_def split: send_result.splits)+

lemma loop_end_campaigns:
  "campaigns (last (d # send_loop wa cl clock camp k msgs d)) =
     map (\<lambda>c. if c_id c = c_id camp then fold tallied (outcomes wa cl camp d k msgs) c else c)
       (campaigns d)"
proof (induction msgs arbitrary: k d)
  case Nil
  show ?case by (simp add: map_idI)
next
  case (Cons m ms)
  let ?d' = "send_one wa cl clock camp k m d"
  have mem: "members ?d' = members d" by (rule send_one_members)
  have "campaigns (last (?d' # send_loop wa cl clock camp (Suc k) ms ?d')) =
     map (\<lambda>c. if c_id c = c_id camp then fold tallied (outcomes wa cl camp ?d' (Suc k) ms) c else c)
       (campaigns ?d')"
    by (rule Cons.IH)
  also have "\<dots> = map (\<lambda>c. if c_id c = c_id camp
                            then fold tallied (outcomes wa cl camp d k (m # ms)) c else c)
                     (campaigns d)"
    by (simp add: send_one_campaigns outcomes_members [OF mem])
  finally show ?case by (simp only: loop_end_Cons)
qed

lemma get_whatsapp_client_ok:
  "tok \<noteq> [] \<Longrightarrow> pid \<noteq> [] \<Longrightarrow> \<exists>cl. get_whatsapp_client tok pid = Inr cl"
  by (simp add: get_whatsapp_client_def)

lemma find_campaign_id: "find_campaign d cid = Some c \<Longrightarrow> c_id c = cid"
  by (auto simp: find_campaign_def dest: find_Some_in)

lemma find_campaign_map:
  assumes "find_campaign d cid = Some c" and "\<And>x. c_id (f x) = c_id x"
    and "campaigns d' = map (\<lambda>x. if c_id x = cid then f x else x) (campaigns d)"
  shows "find_campaign d' cid = Some (f c)"
  using assms find_campaign_id [OF assms(1)]
  by (simp add: find_campaign_def find_map_update)

text \<open>The shape of the list of commits of a dispatch that found its campaign and its client.\<close>

lemma send_campaign_messages_commits:
  assumes camp: "find_campaign d cid = Some camp"
    and cl: "get_whatsapp_client tok pid = Inr cl"
  shows "send_campaign_messages wa clock d cid tok pid =
     (let d1 = write_campaign cid (\<lambda>c. c\<lparr>c_status := ''sending'', c_sent_at := Some (clock 0)\<rparr>) d;
          tr = send_loop wa cl clock camp 0 (queued_of cid d) d1
      in (d1 # tr @ [write_campaign cid (\<lambda>c. c\<lparr>c_status := ''sent''\<rparr>) (last (d1 # tr))], None))"
proof -
  have "queued_of cid (write_campaign cid f d) = queued_of cid d" for f
    by (simp add: queued_of_def write_campaign_def)
  moreover have "query_campaign d cid = Inr (Some camp)"
    using camp by (simp add: query_campaign_def)
  ultimately show ?thesis
    using cl by (simp add: send_campaign_messages_def Let_def)
qed

text \<open>
  Claim C5, for an existing campaign and non-empty credentials, in a database whose message
  ids are unique. The call raises nothing and commits once for the status \<^verbatim>\<open>sending\<close>,
  once per message of the snapshot (the messages of the campaign that are \<^verbatim>\<open>queued\<close>
  when the call starts) and once for the status \<^verbatim>\<open>sent\<close>. The commit of the \<open>k\<close>-th
  message differs from the commit before it in that message, which becomes \<^verbatim>\<open>sent\<close> with
  the provider id and \<^verbatim>\<open>sent_at\<close>, or \<^verbatim>\<open>failed\<close> with the error text, and in one
  counter of the campaign, \<^verbatim>\<open>sent_count\<close> or \<^verbatim>\<open>failed_count\<close>, raised by one. In the
  last commit the campaign is \<^verbatim>\<open>sent\<close>, its counters have grown by the numbers of
  successes and failures, every message of the snapshot holds its recorded outcome, every
  other message is as it was, and no message of the campaign is queued, so that a second
  dispatch would process none.
\<close>

theorem dispatch_processes_queued_snapshot:
  assumes camp: "find_campaign d cid = Some camp"
    and creds: "tok \<noteq> []" "pid \<noteq> []"
    and pk: "distinct (map msg_id (messages d))"
  shows "\<exists>cl commits.
      get_whatsapp_client tok pid = Inr cl
    \<and> send_campaign_messages wa clock d cid tok pid = (commits, None)
    \<and> length commits = length (queued_of cid d) + 2
    \<and> commits ! 0 =
        write_campaign cid (\<lambda>c. c\<lparr>c_status := ''sending'', c_sent_at := Some (clock 0)\<rparr>) d
    \<and> (\<forall>k < length (queued_of cid d).
          commits ! Suc k =
            write_campaign cid (tallied (attempt wa cl camp d k (queued_of cid d ! k)))
              (write_message (msg_id (queued_of cid d ! k))
                 (recorded (attempt wa cl camp d k (queued_of cid d ! k)) (clock (Suc k)))
                 (commits ! k)))
    \<and> last commits =
        write_campaign cid (\<lambda>c. c\<lparr>c_status := ''sent''\<rparr>) (commits ! length (queued_of cid d))
    \<and> (\<exists>c'. find_campaign (last commits) cid = Some c' \<and> c_status c' = ''sent''
          \<and> sent_count c' = sent_count camp
               + int (length (filter is_ok (outcomes wa cl camp d 0 (queued_of cid d))))
          \<and> failed_count c' = failed_count camp
               + int (length (filter (\<lambda>r. \<not> is_ok r) (outcomes wa cl camp d 0 (queued_of cid d))))
          \<and> target_count c' = target_count camp
          \<and> delivered_count c' = delivered_count camp \<and> read_count c' = read_count camp)
    \<and> map msg_id (messages (last commits)) = map msg_id (messages d)
    \<and> (\<forall>k < length (queued_of cid d).
          recorded (attempt wa cl camp d k (queued_of cid d ! k)) (clock (Suc k))
            (queued_of cid d ! k) \<in> set (messages (last commits)))
    \<and> (\<forall>m \<in> set (messages d).
          \<not> (msg_campaign_id m = cid \<and> msg_status m = QUEUED) \<longrightarrow> m \<in> set (messages (last commits)))
    \<and> queued_of cid (last commits) = []"
proof -
  from creds obtain cl where cl: "get_whatsapp_client tok pid = Inr cl"
    using get_whatsapp_client_ok by blast
  define snap where "snap = queued_of cid d"
  define d1 where
    "d1 = write_campaign cid (\<lambda>c. c\<lparr>c_status := ''sending'', c_sent_at := Some (clock 0)\<rparr>) d"
  define tr where "tr = send_loop wa cl clock camp 0 snap d1"
  define dn where "dn = last (d1 # tr)"
  define dfin where "dfin = write_campaign cid (\<lambda>c. c\<lparr>c_status := ''sent''\<rparr>) dn"
  define commits where "commits = d1 # tr @ [dfin]"
  define outs where "outs = outcomes wa cl camp d 0 snap"
  have cid: "c_id camp = cid" using camp by (rule find_campaign_id)
  have run: "send_campaign_messages wa clock d cid tok pid = (commits, None)"
    unfolding send_campaign_messages_commits [OF camp cl]
    by (simp add: Let_def commits_def dfin_def dn_def tr_def d1_def snap_def)
  have d1_msgs: "messages d1 = messages d" and d1_mem: "members d1 = members d"
    by (simp_all add: d1_def write_campaign_def)
  have len_tr: "length tr = length snap"
    by (simp add: tr_def send_loop_length)
  have len: "length commits = length snap + 2"
    by (simp add: commits_def len_tr)
  have first: "commits ! 0 = d1"
    by (simp add: commits_def)
  have nth_commits: "commits ! k = (d1 # tr) ! k" if "k \<le> length snap" for k
    using that len_tr by (cases k) (simp_all add: commits_def nth_append)
  have mem_tr: "members ((d1 # tr) ! k) = members d" if "k \<le> length snap" for k
  proof (cases k)
    case 0
    then show ?thesis by (simp add: d1_mem)
  next
    case (Suc i)
    with that len_tr have "tr ! i \<in> set tr" by simp
    then show ?thesis
      using send_loop_members [of wa cl clock camp 0 snap d1] Suc
      by (simp add: tr_def d1_mem)
  qed
  have step: "commits ! Suc k =
            write_campaign cid (tallied (attempt wa cl camp d k (snap ! k)))
              (write_message (msg_id (snap ! k))
                 (recorded (attempt wa cl camp d k (snap ! k)) (clock (Suc k)))
                 (commits ! k))" if k: "k < length snap" for k
  proof -
    have "commits ! Suc k = (d1 # tr) ! Suc k"
      using k by (intro nth_commits) simp
    also have "\<dots> = send_one wa cl clock camp k (snap ! k) ((d1 # tr) ! k)"
      using send_loop_nth [OF k, of d1 wa cl clock camp 0] by (simp add: tr_def)
    also have "\<dots> = write_campaign cid (tallied (attempt wa cl camp d k (snap ! k)))
              (write_message (msg_id (snap ! k))
                 (recorded (attempt wa cl camp d k (snap ! k)) (clock (Suc k)))
                 ((d1 # tr) ! k))"
      using k by (simp add: send_one_eq cid attempt_members [OF mem_tr])
    finally show ?thesis
      using k by (simp add: nth_commits)
  qed
  have last_c: "last commits = dfin"
    by (simp add: commits_def)
  have dn_nth: "commits ! length snap = dn"
  proof -
    have "last (d1 # tr) = (d1 # tr) ! (length (d1 # tr) - 1)"
      by (rule last_conv_nth) simp
    then show ?thesis
      using len_tr by (simp add: nth_commits dn_def)
  qed
  have outs_d1: "outcomes wa cl camp d1 0 snap = outs"
    by (simp add: outs_def outcomes_members [OF d1_mem])
  have fin_msgs: "messages dfin = messages dn"
    by (simp add: dfin_def write_campaign_def)
  have c1: "find_campaign d1 cid
              = Some (camp\<lparr>c_status := ''sending'', c_sent_at := Some (clock 0)\<rparr>)"
    by (rule find_campaign_map [OF camp]) (simp_all add: d1_def write_campaign_def)
  have camps_dn: "campaigns dn =
      map (\<lambda>c. if c_id c = cid then fold tallied outs c else c) (campaigns d1)"
    unfolding dn_def tr_def cid [symmetric] outs_d1 [symmetric] by (rule loop_end_campaigns)
  have ids_dn: "map msg_id (messages dn) = map msg_id (messages d1)"
    unfolding dn_def tr_def by (rule loop_end_ids)
  have queued_dn: "queued_of cid dn = filter (\<lambda>x. msg_id x \<notin> msg_id ` set snap) (queued_of cid d1)"
    unfolding dn_def tr_def by (rule loop_end_queued)
  have cn: "find_campaign dn cid
              = Some (fold tallied outs (camp\<lparr>c_status := ''sending'', c_sent_at := Some (clock 0)\<rparr>))"
    by (rule find_campaign_map [OF c1 _ camps_dn]) (simp add: fold_tallied_fields)
  have cf: "find_campaign dfin cid
              = Some ((fold tallied outs (camp\<lparr>c_status := ''sending'', c_sent_at := Some (clock 0)\<rparr>))
                        \<lparr>c_status := ''sent''\<rparr>)"
    by (rule find_campaign_map [OF cn]) (simp_all add: dfin_def write_campaign_def)
  have ids: "map msg_id (messages dfin) = map msg_id (messages d)"
    by (simp add: fin_msgs ids_dn d1_msgs)
  have snap_sub: "set snap \<subseteq> set (messages d)"
    by (auto simp: snap_def queued_of_def)
  have snap_dist: "distinct (map msg_id snap)"
    using pk by (simp add: snap_def queued_of_def distinct_map_filter)
  have processed: "recorded (attempt wa cl camp d k (snap ! k)) (clock (Suc k)) (snap ! k)
                     \<in> set (messages dfin)" if k: "k < length snap" for k
  proof -
    have "snap ! k \<in> set (messages d1)"
      using k snap_sub d1_msgs by (auto dest: nth_mem)
    from loop_end_processed [OF k this snap_dist, of wa cl camp 0 clock]
    have "recorded (outcomes wa cl camp d1 0 snap ! k) (clock (Suc (0 + k))) (snap ! k)
            \<in> set (messages dn)"
      unfolding dn_def tr_def .
    then show ?thesis
      using k by (simp add: fin_msgs outcomes_nth attempt_members [OF d1_mem])
  qed
  have untouched: "m \<in> set (messages dfin)"
    if m: "m \<in> set (messages d)" and nq: "\<not> (msg_campaign_id m = cid \<and> msg_status m = QUEUED)" for m
  proof -
    have "msg_id m \<notin> msg_id ` set snap"
    proof
      assume "msg_id m \<in> msg_id ` set snap"
      then obtain x where x: "x \<in> set snap" "msg_id x = msg_id m" by auto
      with snap_sub have "x \<in> set (messages d)" by auto
      with pk m x(2) have "x = m" by (auto simp: distinct_map inj_on_def)
      with x(1) nq show False by (simp add: snap_def queued_of_def)
    qed
    moreover from m have "m \<in> set (messages d1)"
      by (simp add: d1_msgs)
    ultimately have "m \<in> set (messages dn)"
      unfolding dn_def tr_def by (intro loop_end_untouched)
    then show ?thesis
      by (simp add: fin_msgs)
  qed
  have none_left: "queued_of cid dfin = []"
  proof -
    have "queued_of cid dfin = queued_of cid dn"
      by (simp add: queued_of_def fin_msgs)
    also have "\<dots> = filter (\<lambda>x. msg_id x \<notin> msg_id ` set snap) (queued_of cid d1)"
      by (rule queued_dn)
    also have "queued_of cid d1 = snap"
      by (simp add: snap_def queued_of_def d1_msgs)
    also have "filter (\<lambda>x. msg_id x \<notin> msg_id ` set snap) snap = []"
      by (simp add: filter_empty_conv)
    finally show ?thesis .
  qed
  have counts: "\<exists>c'. find_campaign dfin cid = Some c' \<and> c_status c' = ''sent''
          \<and> sent_count c' = sent_count camp + int (length (filter is_ok outs))
          \<and> failed_count c' = failed_count camp + int (length (filter (\<lambda>r. \<not> is_ok r) outs))
          \<and> target_count c' = target_count camp
          \<and> delivered_count c' = delivered_count camp \<and> read_count c' = read_count camp"
    using cf by (simp add: fold_tallied_fields)
  have "get_whatsapp_client tok pid = Inr cl
    \<and> send_campaign_messages wa clock d cid tok pid = (commits, None)
    \<and> length commits = length snap + 2
    \<and> commits ! 0 = d1
    \<and> (\<forall>k < length snap.
          commits ! Suc k =
            write_campaign cid (tallied (attempt wa cl camp d k (snap ! k)))
              (write_message (msg_id (snap ! k))
                 (recorded (attempt wa cl camp d k (snap ! k)) (clock (Suc k)))
                 (commits ! k)))
    \<and> last commits = write_campaign cid (\<lambda>c. c\<lparr>c_status := ''sent''\<rparr>) (commits ! length snap)
    \<and> (\<exists>c'. find_campaign (last commits) cid = Some c' \<and> c_status c' = ''sent''
          \<and> sent_count c' = sent_count camp + int (length (filter is_ok outs))
          \<and> failed_count c' = failed_count camp + int (length (filter (\<lambda>r. \<not> is_ok r) outs))
          \<and> target_count c' = target_count camp
          \<and> delivered_count c' = delivered_count camp \<and> read_count c' = read_count camp)
    \<and> map msg_id (messages (last commits)) = map msg_id (messages d)
    \<and> (\<forall>k < length snap.
          recorded (attempt wa cl camp d k (snap ! k)) (clock (Suc k)) (snap ! k)
            \<in> set (messages (last commits)))
    \<and> (\<forall>m \<in> set (messages d).
          \<not> (msg_campaign_id m = cid \<and> msg_status m = QUEUED) \<longrightarrow> m \<in> set (messages (last commits)))
    \<and> queued_of cid (last commits) = []"
    unfolding last_c dn_nth
    using cl run len first step counts ids processed untouched none_left
    by (simp add: dfin_def)
  then show ?thesis
    unfolding snap_def outs_def d1_def by blast
qed

theorem dispatch_processes_queued_snapshot_witness:
  "find_campaign db1 1 = Some (hd (campaigns db1))
   \<and> ''token'' \<noteq> [] \<and> ''1001'' \<noteq> []
   \<and> distinct (map msg_id (messages db1))
   \<and> length (queued_of 1 db1) = 2
   \<and> (\<exists>cl commits.
         get_whatsapp_client ''token'' ''1001'' = Inr cl
       \<and> send_campaign_messages wa0 clock0 db1 1 ''token'' ''1001'' = (commits, None)
       \<and> length commits = 4
       \<and> (\<exists>c'. find_campaign (last commits) 1 = Some c' \<and> c_status c' = ''sent'')
       \<and> map msg_id (messages (last commits)) = map msg_id (messages db1)
       \<and> queued_of 1 (last commits) = [])"
proof -
  have camp: "find_campaign db1 1 = Some (hd (campaigns db1))"
    and pk: "distinct (map msg_id (messages db1))"
    and two: "length (queued_of 1 db1) = 2"
    by code_simp+
  have creds: "''token'' \<noteq> []" "''1001'' \<noteq> []"
    by simp_all
  from dispatch_processes_queued_snapshot [OF camp creds pk, of wa0 clock0]
  obtain cl commits where
    "get_whatsapp_client ''token'' ''1001'' = Inr cl"
    "send_campaign_messages wa0 clock0 db1 1 ''token'' ''1001'' = (commits, None)"
    "length commits = length (queued_of 1 db1) + 2"
    "\<exists>c'. find_campaign (last commits) 1 = Some c' \<and> c_status c' = ''sent''"
    "map msg_id (messages (last commits)) = map msg_id (messages db1)"
    "queued_of 1 (last commits) = []"
    by blast
  with camp pk two show ?thesis
    by auto
qed

theorem dispatch_with_empty_token_stops_at_sending:
  "map c_status (campaigns db1) = [''queued'']
   \<and> map msg_status (messages db1) = [QUEUED, QUEUED]
   \<and> send_campaign_messages wa0 clock0 db1 1 [] ''1001''
       = ([db_stuck], Some (ValueError ''access_token is required''))
   \<and> map c_status (campaigns db_stuck) = [''sending'']
   \<and> map msg_status (messages db_stuck) = [QUEUED, QUEUED]
   \<and> map counters (campaigns db_stuck) = [(0, 0, 0, 0)]"
  by code_simp


section \<open>Bounds on the counters\<close>

lemma map_key_update:
  "(\<And>x. g (f x) = g x) \<Longrightarrow> map g (map (\<lambda>x. if P x then f x else x) xs) = map g xs"
  by (induction xs) auto

text \<open>Rewriting the one row with the id of \<open>x\<close>, in a table with unique ids.\<close>

lemma rewrite_absent:
  "msg_id x \<notin> msg_id ` set ms \<Longrightarrow> map (\<lambda>m. if msg_id m = msg_id x then f m else m) ms = ms"
  by (induction ms) auto

lemma count_in_Nil [simp]: "count_in S cid [] = 0"
  by (simp add: count_in_def)

lemma count_in_Cons [simp]:
  "count_in S cid (a # ms) =
     (if msg_campaign_id a = cid \<and> msg_status a \<in> S then 1 else 0) + count_in S cid ms"
  by (simp add: count_in_def)

lemma count_in_rewrite:
  assumes "distinct (map msg_id ms)" and "x \<in> set ms"
    and "\<And>m. msg_campaign_id (f m) = msg_campaign_id m"
  shows "count_in S cid (map (\<lambda>m. if msg_id m = msg_id x then f m else m) ms) =
           count_in S cid ms
           - (if msg_campaign_id x = cid \<and> msg_status x \<in> S then 1 else 0)
           + (if msg_campaign_id x = cid \<and> msg_status (f x) \<in> S then 1 else 0)"
  using assms(1,2)
proof (induction ms)
  case Nil
  then show ?case by simp
next
  case (Cons a ms)
  show ?case
  proof (cases "a = x")
    case True
    with Cons.prems have "msg_id x \<notin> msg_id ` set ms" by simp
    then have "map (\<lambda>m. if msg_id m = msg_id x then f m else m) ms = ms"
      by (rule rewrite_absent)
    with True show ?thesis
      by (simp add: assms(3))
  next
    case False
    with Cons.prems have x: "x \<in> set ms" and d: "distinct (map msg_id ms)"
      and "msg_id a \<notin> msg_id ` set ms"
      by auto
    with x have "msg_id a \<noteq> msg_id x" by auto
    with Cons.IH [OF d x] show ?thesis
      by simp
  qed
qed

lemma rewrite_keeps_others:
  "y \<in> set ms \<Longrightarrow> msg_id y \<noteq> i \<Longrightarrow> y \<in> set (map (\<lambda>m. if msg_id m = i then f m else m) ms)"
  by force

lemma rewrite_campaign_ids:
  assumes "\<And>m. msg_campaign_id (f m) = msg_campaign_id m"
  shows "msg_campaign_id ` set (map (\<lambda>m. if msg_id m = i then f m else m) ms) = msg_campaign_id ` set ms"
proof -
  have "map msg_campaign_id (map (\<lambda>m. if msg_id m = i then f m else m) ms) = map msg_campaign_id ms"
    by (simp add: map_key_update assms)
  then have "set (map msg_campaign_id (map (\<lambda>m. if msg_id m = i then f m else m) ms))
             = set (map msg_campaign_id ms)"
    by simp
  then show ?thesis by (simp only: set_map)
qed

lemma count_in_nonneg [simp]: "0 \<le> count_in S cid ms"
  by (simp add: count_in_def)

lemma count_in_mono: "S \<subseteq> T \<Longrightarrow> count_in S cid ms \<le> count_in T cid ms"
  by (induction ms) auto

lemma count_in_queued: "count_in {QUEUED} cid (messages d) = int (length (queued_of cid d))"
  by (simp add: count_in_def queued_of_def)

lemma count_in_append: "count_in S cid (xs @ ys) = count_in S cid xs + count_in S cid ys"
  by (simp add: count_in_def)

lemma write_campaign_same: "write_campaign i (\<lambda>c. c) d = d"
  by (simp add: write_campaign_def)

lemma accounts_ok_rewrite:
  assumes ok: "accounts_ok d" and x: "x \<in> set (messages d)"
    and f: "\<And>m. msg_id (f m) = msg_id m" "\<And>m. msg_campaign_id (f m) = msg_campaign_id m"
    and g: "\<And>c. c_id (g c) = c_id c"
    and bal: "\<And>c. c \<in> set (campaigns d) \<Longrightarrow> c_id c = msg_campaign_id x
                \<Longrightarrow> balanced (messages d) c
                \<Longrightarrow> balanced (map (\<lambda>m. if msg_id m = msg_id x then f m else m) (messages d)) (g c)"
  shows "accounts_ok (write_campaign (msg_campaign_id x) g (write_message (msg_id x) f d))"
proof -
  let ?ms' = "map (\<lambda>m. if msg_id m = msg_id x then f m else m) (messages d)"
  let ?d' = "write_campaign (msg_campaign_id x) g (write_message (msg_id x) f d)"
  from ok have pk: "distinct (map msg_id (messages d))"
    and fk: "\<forall>m\<in>set (messages d). msg_campaign_id m \<in> c_id ` set (campaigns d)"
    and cnt: "\<And>c. c \<in> set (campaigns d) \<Longrightarrow> balanced (messages d) c"
    by (simp_all add: accounts_ok_def)
  have msgs: "messages ?d' = ?ms'"
    by (simp add: write_campaign_def write_message_def)
  have camps: "campaigns ?d' =
      map (\<lambda>c. if c_id c = msg_campaign_id x then g c else c) (campaigns d)"
    by (simp add: write_campaign_def write_message_def)
  have ids: "map msg_id ?ms' = map msg_id (messages d)"
    by (simp add: map_key_update f(1))
  have "map c_id (campaigns ?d') = map c_id (campaigns d)"
    by (simp add: camps map_key_update g)
  then have "set (map c_id (campaigns ?d')) = set (map c_id (campaigns d))"
    by simp
  then have cids: "c_id ` set (campaigns ?d') = c_id ` set (campaigns d)"
    by (simp only: set_map)
  have fks: "msg_campaign_id ` set ?ms' = msg_campaign_id ` set (messages d)"
    by (rule rewrite_campaign_ids) (rule f(2))
  have fk': "msg_campaign_id y \<in> c_id ` set (campaigns ?d')" if "y \<in> set ?ms'" for y
  proof -
    from that have "msg_campaign_id y \<in> msg_campaign_id ` set ?ms'" by (rule imageI)
    then obtain z where "z \<in> set (messages d)" "msg_campaign_id y = msg_campaign_id z"
      unfolding fks by auto
    with fk show ?thesis unfolding cids by auto
  qed
  have other: "balanced ?ms' c" if c: "c \<in> set (campaigns d)" and ne: "c_id c \<noteq> msg_campaign_id x" for c
  proof -
    have "count_in S (c_id c) ?ms' = count_in S (c_id c) (messages d)" for S
      using count_in_rewrite [OF pk x f(2), of S "c_id c"] ne by simp
    with cnt [OF c] show ?thesis by (simp add: balanced_def)
  qed
  have cnt': "balanced ?ms' c'" if "c' \<in> set (campaigns ?d')" for c'
  proof -
    from that obtain c where c: "c \<in> set (campaigns d)"
      and c': "c' = (if c_id c = msg_campaign_id x then g c else c)"
      unfolding camps by auto
    show ?thesis
    proof (cases "c_id c = msg_campaign_id x")
      case True
      with bal [OF c True cnt [OF c]] c' show ?thesis by simp
    next
      case False
      with other [OF c False] c' show ?thesis by simp
    qed
  qed
  show ?thesis
    unfolding accounts_ok_def msgs ids
  proof (intro conjI ballI)
    show "distinct (map msg_id (messages d))" by (rule pk)
  next
    fix y assume "y \<in> set ?ms'"
    then show "msg_campaign_id y \<in> c_id ` set (campaigns ?d')" by (rule fk')
  next
    fix c assume "c \<in> set (campaigns ?d')"
    then show "balanced ?ms' c" by (rule cnt')
  qed
qed

text \<open>The transitions of a message that the code makes, with the counter each one moves.\<close>

lemma accounts_ok_recorded:
  assumes ok: "accounts_ok d" and x: "x \<in> set (messages d)" and q: "msg_status x = QUEUED"
  shows "accounts_ok (write_campaign (msg_campaign_id x) (tallied r)
                        (write_message (msg_id x) (recorded r t) d))"
proof (rule accounts_ok_rewrite [OF ok x])
  fix c
  assume c: "c_id c = msg_campaign_id x" and b: "balanced (messages d) c"
  from ok have pk: "distinct (map msg_id (messages d))" by (simp add: accounts_ok_def)
  have rw: "count_in S (c_id c) (map (\<lambda>m. if msg_id m = msg_id x then recorded r t m else m) (messages d))
      = count_in S (c_id c) (messages d) - (if QUEUED \<in> S then 1 else 0)
        + (if msg_status (recorded r t x) \<in> S then 1 else 0)" for S
    using count_in_rewrite [OF pk x, of "recorded r t" S "c_id c"] c q by simp
  show "balanced (map (\<lambda>m. if msg_id m = msg_id x then recorded r t m else m) (messages d))
          (tallied r c)"
    unfolding balanced_def tallied_keeps rw
    using b [unfolded balanced_def]
    by (cases r) (simp_all add: recorded_def tallied_def)
qed simp_all

lemma accounts_ok_delivered:
  assumes ok: "accounts_ok d" and x: "x \<in> set (messages d)" and s: "msg_status x = SENT"
  shows "accounts_ok (write_campaign (msg_campaign_id x)
                        (\<lambda>c. c\<lparr>delivered_count := delivered_count c + 1\<rparr>)
                        (write_message (msg_id x)
                           (\<lambda>m. m\<lparr>msg_status := DELIVERED, delivered_at := Some now\<rparr>) d))"
proof (rule accounts_ok_rewrite [OF ok x])
  fix c
  let ?f = "\<lambda>m. m\<lparr>msg_status := DELIVERED, delivered_at := Some now\<rparr>"
  assume c: "c_id c = msg_campaign_id x" and b: "balanced (messages d) c"
  from ok have pk: "distinct (map msg_id (messages d))" by (simp add: accounts_ok_def)
  have rw: "count_in S (c_id c) (map (\<lambda>m. if msg_id m = msg_id x then ?f m else m) (messages d))
      = count_in S (c_id c) (messages d) - (if SENT \<in> S then 1 else 0)
        + (if DELIVERED \<in> S then 1 else 0)" for S
    using count_in_rewrite [OF pk x, of ?f S "c_id c"] c s by simp
  show "balanced (map (\<lambda>m. if msg_id m = msg_id x then ?f m else m) (messages d))
          (c\<lparr>delivered_count := delivered_count c + 1\<rparr>)"
    using b by (simp add: balanced_def rw)
qed simp_all

lemma accounts_ok_read:
  assumes ok: "accounts_ok d" and x: "x \<in> set (messages d)" and s: "msg_status x = DELIVERED"
  shows "accounts_ok (write_campaign (msg_campaign_id x)
                        (\<lambda>c. c\<lparr>read_count := read_count c + 1\<rparr>)
                        (write_message (msg_id x)
                           (\<lambda>m. m\<lparr>msg_status := READ, read_at := Some now\<rparr>) d))"
proof (rule accounts_ok_rewrite [OF ok x])
  fix c
  let ?f = "\<lambda>m. m\<lparr>msg_status := READ, read_at := Some now\<rparr>"
  assume c: "c_id c = msg_campaign_id x" and b: "balanced (messages d) c"
  from ok have pk: "distinct (map msg_id (messages d))" by (simp add: accounts_ok_def)
  have rw: "count_in S (c_id c) (map (\<lambda>m. if msg_id m = msg_id x then ?f m else m) (messages d))
      = count_in S (c_id c) (messages d) - (if DELIVERED \<in> S then 1 else 0)
        + (if READ \<in> S then 1 else 0)" for S
    using count_in_rewrite [OF pk x, of ?f S "c_id c"] c s by simp
  show "balanced (map (\<lambda>m. if msg_id m = msg_id x then ?f m else m) (messages d))
          (c\<lparr>read_count := read_count c + 1\<rparr>)"
    using b by (simp add: balanced_def rw)
qed simp_all

lemma accounts_ok_sent_again:
  assumes ok: "accounts_ok d" and x: "x \<in> set (messages d)" and s: "msg_status x = SENT"
  shows "accounts_ok (write_message (msg_id x)
                        (\<lambda>m. m\<lparr>msg_status := SENT, msg_sent_at := Some now\<rparr>) d)"
proof -
  let ?f = "\<lambda>m. m\<lparr>msg_status := SENT, msg_sent_at := Some now\<rparr>"
  have "accounts_ok (write_campaign (msg_campaign_id x) (\<lambda>c. c) (write_message (msg_id x) ?f d))"
  proof (rule accounts_ok_rewrite [OF ok x])
    fix c
    assume c: "c_id c = msg_campaign_id x" and b: "balanced (messages d) c"
    from ok have pk: "distinct (map msg_id (messages d))" by (simp add: accounts_ok_def)
    have rw: "count_in S (c_id c) (map (\<lambda>m. if msg_id m = msg_id x then ?f m else m) (messages d))
        = count_in S (c_id c) (messages d)" for S
      using count_in_rewrite [OF pk x, of ?f S "c_id c"] c s by simp
    show "balanced (map (\<lambda>m. if msg_id m = msg_id x then ?f m else m) (messages d)) c"
      using b by (simp add: balanced_def rw)
  qed simp_all
  then show ?thesis by (simp only: write_campaign_same)
qed

lemma in_order_status_update:
  assumes io: "in_order_event pf d ev" and run: "process_status_update pf now d ev = Inr d'"
  shows "d' = d
     \<or> (\<exists>x\<in>set (messages d). msg_status x = SENT
           \<and> d' = write_message (msg_id x) (\<lambda>m. m\<lparr>msg_status := SENT, msg_sent_at := Some now\<rparr>) d)
     \<or> (\<exists>x\<in>set (messages d). msg_status x = SENT
           \<and> d' = write_campaign (msg_campaign_id x)
                    (\<lambda>c. c\<lparr>delivered_count := delivered_count c + 1\<rparr>)
                    (write_message (msg_id x)
                       (\<lambda>m. m\<lparr>msg_status := DELIVERED, delivered_at := Some now\<rparr>) d))
     \<or> (\<exists>x\<in>set (messages d). msg_status x = DELIVERED
           \<and> d' = write_campaign (msg_campaign_id x)
                    (\<lambda>c. c\<lparr>read_count := read_count c + 1\<rparr>)
                    (write_message (msg_id x)
                       (\<lambda>m. m\<lparr>msg_status := READ, read_at := Some now\<rparr>) d))"
proof (cases "matched_message pf d ev")
  case None
  with run have "d' = d"
    by (auto simp: matched_message_def process_status_update_def Let_def
        split: option.splits if_splits)
  then show ?thesis by simp
next
  case (Some x)
  then obtain info w where info: "extract_message_status ev = Some info"
    and wid: "truthy (info_whatsapp_message_id info)"
    and w: "sql_text pf (info_whatsapp_message_id info) = Some w"
    and found: "find_message_by_wamid d w = Some x"
    by (auto simp: matched_message_def split: option.splits if_splits)
  from info have st: "info_status info = dict_get ev ''status''"
    by (auto simp: extract_message_status_def Let_def split: if_splits)
  from found have x: "x \<in> set (messages d)"
    by (auto simp: find_message_by_wamid_def dest: find_Some_in)
  from io Some have ord:
    "dict_get ev ''status'' = JStr ''sent'' \<or> dict_get ev ''status'' = JStr ''delivered''
       \<Longrightarrow> msg_status x = SENT"
    "dict_get ev ''status'' = JStr ''read'' \<Longrightarrow> msg_status x = DELIVERED"
    "dict_get ev ''status'' \<noteq> JStr ''failed''"
    by (auto simp: in_order_event_def Let_def split: if_splits)
  consider (sent) "dict_get ev ''status'' = JStr ''sent''"
    | (delivered) "dict_get ev ''status'' = JStr ''delivered''"
    | (read) "dict_get ev ''status'' = JStr ''read''"
    | (other) "dict_get ev ''status'' \<notin> {JStr ''sent'', JStr ''delivered'', JStr ''read''}"
    by blast
  then show ?thesis
  proof cases
    case sent
    with run info wid w found st have
      "d' = write_message (msg_id x) (\<lambda>m. m\<lparr>msg_status := SENT, msg_sent_at := Some now\<rparr>) d"
      by (simp add: process_status_update_def Let_def)
    with x ord(1) sent show ?thesis by blast
  next
    case delivered
    with run info wid w found st have
      "d' = write_campaign (msg_campaign_id x)
                    (\<lambda>c. c\<lparr>delivered_count := delivered_count c + 1\<rparr>)
                    (write_message (msg_id x)
                       (\<lambda>m. m\<lparr>msg_status := DELIVERED, delivered_at := Some now\<rparr>) d)"
      by (auto simp: process_status_update_def Let_def bump_campaign_def split: option.splits)
    with x ord(1) delivered show ?thesis by blast
  next
    case read
    with run info wid w found st have
      "d' = write_campaign (msg_campaign_id x)
                    (\<lambda>c. c\<lparr>read_count := read_count c + 1\<rparr>)
                    (write_message (msg_id x)
                       (\<lambda>m. m\<lparr>msg_status := READ, read_at := Some now\<rparr>) d)"
      by (auto simp: process_status_update_def Let_def bump_campaign_def split: option.splits)
    with x ord(2) read show ?thesis by blast
  next
    case other
    with run info wid w found st ord(3) have "d' = d"
      by (simp add: process_status_update_def Let_def)
    then show ?thesis by simp
  qed
qed

lemma accounts_ok_in_order_event:
  assumes ok: "accounts_ok d" and io: "in_order_event pf d ev"
    and run: "process_status_update pf now d ev = Inr d'"
  shows "accounts_ok d'"
  using in_order_status_update [OF io run] ok
  by (auto intro: accounts_ok_sent_again accounts_ok_delivered accounts_ok_read)

text \<open>A queued message outlives the rewriting of a row with another id.\<close>

lemma queued_of_rewrite:
  assumes "y \<in> set (queued_of c d)" and "msg_id y \<noteq> i"
  shows "y \<in> set (queued_of c (write_message i f d))"
    and "y \<in> set (queued_of c (write_campaign j g (write_message i f d)))"
  using assms by (auto simp: queued_of_def write_message_def write_campaign_def)

lemma queued_kept_by_in_order_event:
  assumes ok: "accounts_ok d" and io: "in_order_event pf d ev"
    and run: "process_status_update pf now d ev = Inr d'"
    and y: "y \<in> set (queued_of c d)"
  shows "y \<in> set (queued_of c d')"
proof -
  from ok have pk: "distinct (map msg_id (messages d))" by (simp add: accounts_ok_def)
  from y have ym: "y \<in> set (messages d)" and yq: "msg_status y = QUEUED"
    by (auto simp: queued_of_def)
  have ne: "msg_id y \<noteq> msg_id x" if "x \<in> set (messages d)" "msg_status x \<noteq> QUEUED" for x
  proof
    assume "msg_id y = msg_id x"
    with pk ym that(1) have "y = x" by (auto simp: distinct_map inj_on_def)
    with yq that(2) show False by simp
  qed
  from in_order_status_update [OF io run] show ?thesis
  proof (elim disjE bexE conjE)
    assume "d' = d"
    with y show ?thesis by simp
  next
    fix x assume "x \<in> set (messages d)" "msg_status x = SENT"
      and d': "d' = write_message (msg_id x) (\<lambda>m. m\<lparr>msg_status := SENT, msg_sent_at := Some now\<rparr>) d"
    then have "msg_id y \<noteq> msg_id x" by (intro ne) simp_all
    with y show ?thesis unfolding d' by (intro queued_of_rewrite)
  next
    fix x assume "x \<in> set (messages d)" "msg_status x = SENT"
      and d': "d' = write_campaign (msg_campaign_id x)
                    (\<lambda>c. c\<lparr>delivered_count := delivered_count c + 1\<rparr>)
                    (write_message (msg_id x)
                       (\<lambda>m. m\<lparr>msg_status := DELIVERED, delivered_at := Some now\<rparr>) d)"
    then have "msg_id y \<noteq> msg_id x" by (intro ne) simp_all
    with y show ?thesis unfolding d' by (intro queued_of_rewrite)
  next
    fix x assume "x \<in> set (messages d)" "msg_status x = DELIVERED"
      and d': "d' = write_campaign (msg_campaign_id x)
                    (\<lambda>c. c\<lparr>read_count := read_count c + 1\<rparr>)
                    (write_message (msg_id x)
                       (\<lambda>m. m\<lparr>msg_status := READ, read_at := Some now\<rparr>) d)"
    then have "msg_id y \<noteq> msg_id x" by (intro ne) simp_all
    with y show ?thesis unfolding d' by (intro queued_of_rewrite)
  qed
qed

lemma runs_ok_kept:
  assumes "runs_ok d rs" and "\<And>c y. y \<in> set (queued_of c d) \<Longrightarrow> y \<in> set (queued_of c d')"
  shows "runs_ok d' rs"
  using assms unfolding runs_ok_def by blast

lemma queue_messages_ids_ge:
  "m \<in> set (queue_messages k cid tname now ms) \<Longrightarrow> k \<le> msg_id m"
  by (induction ms arbitrary: k) force+

lemma queue_messages_distinct: "distinct (map msg_id (queue_messages k cid tname now ms))"
proof (induction ms arbitrary: k)
  case Nil
  show ?case by simp
next
  case (Cons a ms)
  have "k \<notin> msg_id ` set (queue_messages (k + 1) cid tname now ms)"
    using queue_messages_ids_ge [of _ "k + 1" cid tname now ms] by force
  with Cons show ?case by simp
qed

lemma count_in_queue_messages:
  "count_in S cid' (queue_messages k cid tname now ms) =
     (if cid' = cid \<and> QUEUED \<in> S then int (length ms) else 0)"
  by (induction ms arbitrary: k) auto

lemma count_in_none:
  "\<forall>m\<in>set ms. msg_campaign_id m \<noteq> cid \<Longrightarrow> count_in S cid ms = 0"
  by (induction ms) auto

lemma accounts_ok_start: "campaigns d = [] \<Longrightarrow> messages d = [] \<Longrightarrow> accounts_ok d"
  by (simp add: accounts_ok_def)

lemma accounts_ok_same_tables:
  "accounts_ok d \<Longrightarrow> campaigns d' = campaigns d \<Longrightarrow> messages d' = messages d \<Longrightarrow> accounts_ok d'"
  by (simp add: accounts_ok_def)

lemma accounts_ok_created:
  assumes ok: "accounts_ok d"
    and created: "create_campaign_and_queue now d request = Inr (d', reply, task)"
  shows "accounts_ok d'"
proof -
  note r = create_campaign_and_queue_result [OF created]
  define cid where "cid = next_id (map c_id (campaigns d))"
  define sel where "sel = filter mb_is_opted_in (members d)"
  define new where
    "new = queue_messages (next_id (map msg_id (messages d))) cid (template_name request) now sel"
  have msgs: "messages d' = messages d @ new"
    using r by (simp add: new_def cid_def sel_def)
  obtain camp where camps: "campaigns d' = campaigns d @ [camp]"
    and camp: "c_id camp = cid" "target_count camp = int (length sel)"
      "sent_count camp = 0" "failed_count camp = 0" "delivered_count camp = 0" "read_count camp = 0"
    using r by (simp add: cid_def sel_def)
  from ok have pk: "distinct (map msg_id (messages d))"
    and fk: "\<forall>m\<in>set (messages d). msg_campaign_id m \<in> c_id ` set (campaigns d)"
    and cnt: "\<And>c. c \<in> set (campaigns d) \<Longrightarrow> balanced (messages d) c"
    by (simp_all add: accounts_ok_def)
  have fresh_c: "c_id c \<noteq> cid" if "c \<in> set (campaigns d)" for c
    using next_id_fresh [of "c_id c" "map c_id (campaigns d)"] that by (auto simp: cid_def)
  have old_not_new: "msg_campaign_id m \<noteq> cid" if "m \<in> set (messages d)" for m
  proof -
    from fk that obtain c where "c \<in> set (campaigns d)" "msg_campaign_id m = c_id c"
      by auto
    with fresh_c show ?thesis by simp
  qed
  have pk': "distinct (map msg_id (messages d'))"
  proof -
    have "msg_id x \<noteq> msg_id y" if "x \<in> set (messages d)" "y \<in> set new" for x y
      using next_id_fresh [of "msg_id x" "map msg_id (messages d)"] that(1)
        queue_messages_ids_ge [OF that(2) [unfolded new_def]] by auto
    then show ?thesis
      using pk by (auto simp: msgs new_def queue_messages_distinct)
  qed
  have fk': "\<forall>m\<in>set (messages d'). msg_campaign_id m \<in> c_id ` set (campaigns d')"
    using fk camp(1) by (auto simp: msgs camps new_def dest: queue_messages_campaign)
  have old: "balanced (messages d') c" if c: "c \<in> set (campaigns d)" for c
  proof -
    have "count_in S (c_id c) (messages d') = count_in S (c_id c) (messages d)" for S
      using fresh_c [OF c] by (simp add: msgs count_in_append new_def count_in_queue_messages)
    with cnt [OF c] show ?thesis by (simp add: balanced_def)
  qed
  have "count_in S cid (messages d) = 0" for S
    using old_not_new by (intro count_in_none) blast
  then have "count_in S cid (messages d') = (if QUEUED \<in> S then int (length sel) else 0)" for S
    by (simp add: msgs count_in_append new_def count_in_queue_messages)
  then have new: "balanced (messages d') camp"
    by (simp add: balanced_def camp)
  from pk' fk' old new show ?thesis
    by (auto simp: accounts_ok_def camps)
qed

lemma queued_kept_by_creation:
  assumes "create_campaign_and_queue now d request = Inr (d', reply, task)"
    and "y \<in> set (queued_of c d)"
  shows "y \<in> set (queued_of c d')"
  using create_campaign_and_queue_result [OF assms(1)] assms(2)
  by (auto simp: queued_of_def)

lemma accounts_ok_write_campaign:
  assumes ok: "accounts_ok d"
    and keeps: "\<And>c. c_id (g c) = c_id c \<and> target_count (g c) = target_count c
        \<and> sent_count (g c) = sent_count c \<and> failed_count (g c) = failed_count c
        \<and> delivered_count (g c) = delivered_count c \<and> read_count (g c) = read_count c"
  shows "accounts_ok (write_campaign cid g d)"
proof -
  have "map c_id (campaigns (write_campaign cid g d)) = map c_id (campaigns d)"
    by (simp add: write_campaign_def map_key_update keeps)
  then have "set (map c_id (campaigns (write_campaign cid g d))) = set (map c_id (campaigns d))"
    by simp
  then have ids: "c_id ` set (campaigns (write_campaign cid g d)) = c_id ` set (campaigns d)"
    by (simp only: set_map)
  have m: "messages (write_campaign cid g d) = messages d"
    by (simp add: write_campaign_def)
  from ok have pk: "distinct (map msg_id (messages d))"
    and fk0: "\<forall>m\<in>set (messages d). msg_campaign_id m \<in> c_id ` set (campaigns d)"
    and cnt: "\<And>c. c \<in> set (campaigns d) \<Longrightarrow> balanced (messages d) c"
    by (simp_all add: accounts_ok_def)
  have cnt': "balanced (messages d) c'" if "c' \<in> set (campaigns (write_campaign cid g d))" for c'
  proof -
    from that obtain c where c: "c \<in> set (campaigns d)"
      and c': "c' = (if c_id c = cid then g c else c)"
      by (auto simp: write_campaign_def)
    from cnt [OF c] keeps [of c] show ?thesis
      unfolding c' by (cases "c_id c = cid") (simp_all add: balanced_def)
  qed
  show ?thesis
    unfolding accounts_ok_def m ids
  proof (intro conjI ballI)
    show "distinct (map msg_id (messages d))" by (rule pk)
  next
    fix x assume "x \<in> set (messages d)"
    with fk0 show "msg_campaign_id x \<in> c_id ` set (campaigns d)" by blast
  next
    fix c assume "c \<in> set (campaigns (write_campaign cid g d))"
    then show "balanced (messages d) c" by (rule cnt')
  qed
qed

lemma queued_of_write_campaign: "queued_of c (write_campaign j g d) = queued_of c d"
  by (simp add: queued_of_def write_campaign_def)

lemma runs_ok_started:
  assumes "runs_ok d rs" and "no_overlap rs (c_id camp)"
  shows "runs_ok d' (rs @ [Started camp tok pid]) \<longleftrightarrow> runs_ok d' rs"
    and "runs_ok d (rs @ [Started camp tok pid])"
  using assms by (auto simp: runs_ok_def no_overlap_def)

lemma runs_ok_removed: "runs_ok d (rs1 @ r # rs2) \<Longrightarrow> runs_ok d (rs1 @ rs2)"
  by (auto simp: runs_ok_def)

lemma runs_ok_snapshot:
  assumes "runs_ok d (rs1 @ Started camp tok pid # rs2)" and "distinct (map msg_id (messages d))"
  shows "runs_ok d (rs1 @ Sending camp cl 0 (queued_of (c_id camp) d) # rs2)"
proof -
  have "distinct (map msg_id (queued_of (c_id camp) d))"
    using assms(2) by (simp add: queued_of_def distinct_map_filter)
  with assms(1) show ?thesis
    by (auto simp: runs_ok_def)
qed

lemma runs_ok_iteration:
  assumes runs: "runs_ok d (rs1 @ Sending camp cl k (m # ms) # rs2)"
    and pk: "distinct (map msg_id (messages d))"
  shows "runs_ok (send_one wa cl clock camp k m d) (rs1 @ Sending camp cl (Suc k) ms # rs2)"
proof -
  let ?d' = "send_one wa cl clock camp k m d"
  let ?rid = "\<lambda>r. c_id (run_campaign r)"
  from runs have dist: "distinct (map ?rid (rs1 @ Sending camp cl k (m # ms) # rs2))"
    unfolding runs_ok_def by (rule conjunct1)
  from runs have all: "\<forall>r\<in>set (rs1 @ Sending camp cl k (m # ms) # rs2).
        set (todo r) \<subseteq> set (queued_of (?rid r) d) \<and> distinct (map msg_id (todo r))"
    unfolding runs_ok_def by (rule conjunct2)
  have todo: "set (todo r) \<subseteq> set (queued_of (?rid r) d) \<and> distinct (map msg_id (todo r))"
    if "r \<in> set (rs1 @ Sending camp cl k (m # ms) # rs2)" for r
    using all that by (rule bspec)
  from todo [of "Sending camp cl k (m # ms)"]
  have m: "m \<in> set (queued_of (c_id camp) d)" and ms: "set ms \<subseteq> set (queued_of (c_id camp) d)"
    and dms: "distinct (map msg_id (m # ms))"
    by auto
  from m have mm: "m \<in> set (messages d)" and mc: "msg_campaign_id m = c_id camp"
    by (auto simp: queued_of_def)
  have keep: "y \<in> set (queued_of c ?d')" if "y \<in> set (queued_of c d)" "msg_id y \<noteq> msg_id m" for y c
    using that unfolding send_one_eq by (intro queued_of_rewrite)
  have dist': "distinct (map ?rid (rs1 @ Sending camp cl (Suc k) ms # rs2))"
    using dist by simp
  have this_run: "set ms \<subseteq> set (queued_of (c_id camp) ?d') \<and> distinct (map msg_id ms)"
  proof (intro conjI subsetI)
    fix y assume y: "y \<in> set ms"
    then have "msg_id y \<in> msg_id ` set ms" by (rule imageI)
    with dms have "msg_id y \<noteq> msg_id m" by auto
    with y ms show "y \<in> set (queued_of (c_id camp) ?d')" by (intro keep) auto
  next
    from dms show "distinct (map msg_id ms)" by simp
  qed
  have others: "set (todo r) \<subseteq> set (queued_of (?rid r) ?d') \<and> distinct (map msg_id (todo r))"
    if r: "r \<in> set rs1 \<union> set rs2" for r
  proof (intro conjI subsetI)
    from r have rin: "r \<in> set (rs1 @ Sending camp cl k (m # ms) # rs2)" by auto
    from r have "?rid r \<in> ?rid ` (set rs1 \<union> set rs2)" by (rule imageI)
    with dist have ne: "?rid r \<noteq> c_id camp" by auto
    fix y assume y: "y \<in> set (todo r)"
    with todo [OF rin] have yq: "y \<in> set (queued_of (?rid r) d)" by auto
    then have ym: "y \<in> set (messages d)" and yc: "msg_campaign_id y = ?rid r"
      by (auto simp: queued_of_def)
    have "msg_id y \<noteq> msg_id m"
    proof
      assume "msg_id y = msg_id m"
      with pk ym mm have "y = m" by (auto simp: distinct_map inj_on_def)
      with yc mc ne show False by simp
    qed
    with yq show "y \<in> set (queued_of (?rid r) ?d')" by (intro keep)
  next
    from r have "r \<in> set (rs1 @ Sending camp cl k (m # ms) # rs2)" by auto
    from todo [OF this] show "distinct (map msg_id (todo r))" by simp
  qed
  show ?thesis
    unfolding runs_ok_def
  proof (rule conjI [OF dist' ballI])
    fix r assume "r \<in> set (rs1 @ Sending camp cl (Suc k) ms # rs2)"
    then consider "r = Sending camp cl (Suc k) ms" | "r \<in> set rs1 \<union> set rs2" by auto
    then show "set (todo r) \<subseteq> set (queued_of (?rid r) ?d') \<and> distinct (map msg_id (todo r))"
    proof cases
      case 1
      with this_run show ?thesis by simp
    next
      case 2
      then show ?thesis by (rule others)
    qed
  qed
qed

lemma accounts_ok_iteration:
  assumes ok: "accounts_ok d" and runs: "runs_ok d (rs1 @ Sending camp cl k (m # ms) # rs2)"
  shows "accounts_ok (send_one wa cl clock camp k m d)"
proof -
  from runs have "m \<in> set (queued_of (c_id camp) d)"
    by (auto simp: runs_ok_def)
  then have m: "m \<in> set (messages d)" "msg_status m = QUEUED" "msg_campaign_id m = c_id camp"
    by (auto simp: queued_of_def)
  from accounts_ok_recorded [OF ok m(1,2)] show ?thesis
    unfolding send_one_eq m(3) .
qed

lemma query_campaign_found:
  "query_campaign d cid = Inr (Some camp) \<Longrightarrow> find_campaign d cid = Some camp"
  by (simp add: query_campaign_def split: option.splits if_splits)

lemma process_incoming_message_tables:
  assumes "process_incoming_message pf now d ev = Inr d'"
  shows "campaigns d' = campaigns d \<and> messages d' = messages d"
  using assms
  by (auto simp: process_incoming_message_def Let_def write_member_def
      split: if_splits option.splits sum.splits bool.splits)

lemma runs_ok_same_messages:
  assumes "runs_ok d rs" and "messages d' = messages d"
  shows "runs_ok d' rs"
proof -
  have "queued_of c d' = queued_of c d" for c
    by (simp add: queued_of_def assms(2))
  with assms(1) show ?thesis
    by (simp add: runs_ok_def)
qed

lemma accounts_ok_pk: "accounts_ok d \<Longrightarrow> distinct (map msg_id (messages d))"
  by (simp add: accounts_ok_def)

lemma reachable_invariant:
  "reachable in_order_event no_overlap s \<Longrightarrow> accounts_ok (fst s) \<and> runs_ok (fst s) (snd s)"
proof (induction rule: reachable.induct)
  case (start d)
  then have "accounts_ok d" by (rule accounts_ok_start)
  moreover have "runs_ok d []" by (simp add: runs_ok_def)
  ultimately show ?case by simp
next
  case (recipients d rs ms)
  then have ok: "accounts_ok d" and runs: "runs_ok d rs" by simp_all
  from ok have "accounts_ok (d\<lparr>members := ms\<rparr>)" by (rule accounts_ok_same_tables) simp_all
  moreover from runs have "runs_ok (d\<lparr>members := ms\<rparr>) rs" by (rule runs_ok_same_messages) simp
  ultimately show ?case by simp
next
  case (created d rs now request d' reply task)
  then have ok: "accounts_ok d" and runs: "runs_ok d rs" by simp_all
  from ok created.hyps(2) have "accounts_ok d'" by (rule accounts_ok_created)
  moreover from runs have "runs_ok d' rs"
    by (rule runs_ok_kept) (rule queued_kept_by_creation [OF created.hyps(2)])
  ultimately show ?case by simp
next
  case (dispatch_begun d rs cid camp t tok pid)
  then have ok: "accounts_ok d" and runs: "runs_ok d rs" by simp_all
  let ?d' = "write_campaign cid (\<lambda>c. c\<lparr>c_status := ''sending'', c_sent_at := Some t\<rparr>) d"
  from dispatch_begun.hyps(3) have "find_campaign d cid = Some camp" by (rule query_campaign_found)
  then have cid: "c_id camp = cid" by (rule find_campaign_id)
  from ok have "accounts_ok ?d'" by (rule accounts_ok_write_campaign) simp
  moreover have "runs_ok ?d' (rs @ [Started camp tok pid])"
  proof (rule runs_ok_started(2))
    from runs show "runs_ok ?d' rs" by (rule runs_ok_kept) (simp add: queued_of_write_campaign)
    from dispatch_begun.hyps(2) cid show "no_overlap rs (c_id camp)" by simp
  qed
  ultimately show ?case by simp
next
  case (dispatch_aborted d rs1 camp tok pid rs2 e)
  then have ok: "accounts_ok d" and runs: "runs_ok d (rs1 @ Started camp tok pid # rs2)" by simp_all
  from runs have "runs_ok d (rs1 @ rs2)" by (rule runs_ok_removed)
  with ok show ?case by simp
next
  case (dispatch_snapshot d rs1 camp tok pid rs2 cl)
  then have ok: "accounts_ok d" and runs: "runs_ok d (rs1 @ Started camp tok pid # rs2)" by simp_all
  from runs accounts_ok_pk [OF ok]
  have "runs_ok d (rs1 @ Sending camp cl 0 (queued_of (c_id camp) d) # rs2)"
    by (rule runs_ok_snapshot)
  with ok show ?case by simp
next
  case (dispatch_iteration d rs1 camp cl k msg msgs rs2 wa clock)
  then have ok: "accounts_ok d" and runs: "runs_ok d (rs1 @ Sending camp cl k (msg # msgs) # rs2)"
    by simp_all
  from ok runs have "accounts_ok (send_one wa cl clock camp k msg d)"
    by (rule accounts_ok_iteration)
  moreover from runs accounts_ok_pk [OF ok]
  have "runs_ok (send_one wa cl clock camp k msg d) (rs1 @ Sending camp cl (Suc k) msgs # rs2)"
    by (rule runs_ok_iteration)
  ultimately show ?case by simp
next
  case (dispatch_ended d rs1 camp cl k rs2)
  then have ok: "accounts_ok d" and runs: "runs_ok d (rs1 @ Sending camp cl k [] # rs2)" by simp_all
  let ?d' = "write_campaign (c_id camp) (\<lambda>c. c\<lparr>c_status := ''sent''\<rparr>) d"
  from ok have "accounts_ok ?d'" by (rule accounts_ok_write_campaign) simp
  moreover have "runs_ok ?d' (rs1 @ rs2)"
  proof (rule runs_ok_kept)
    from runs show "runs_ok d (rs1 @ rs2)" by (rule runs_ok_removed)
  qed (simp add: queued_of_write_campaign)
  ultimately show ?case by simp
next
  case (status_event d rs pf ev now d')
  then have ok: "accounts_ok d" and runs: "runs_ok d rs" by simp_all
  from ok status_event.hyps(2,3) have "accounts_ok d'" by (rule accounts_ok_in_order_event)
  moreover from runs have "runs_ok d' rs"
    by (rule runs_ok_kept) (rule queued_kept_by_in_order_event [OF ok status_event.hyps(2,3)])
  ultimately show ?case by simp
next
  case (inbound d rs pf now ev d')
  then have ok: "accounts_ok d" and runs: "runs_ok d rs" by simp_all
  from process_incoming_message_tables [OF inbound.hyps(2)]
  have same: "campaigns d' = campaigns d" "messages d' = messages d" by simp_all
  from ok same have "accounts_ok d'" by (rule accounts_ok_same_tables)
  moreover from runs same(2) have "runs_ok d' rs" by (rule runs_ok_same_messages)
  ultimately show ?case by simp
qed

text \<open>
  A dispatch that runs alone is a path of single commits: the database that
  \<^verbatim>\<open>send_campaign_messages\<close> leaves behind is reached from the one it started in.
\<close>

lemma reachable_loop:
  assumes "reachable A M (d, rs1 @ Sending camp cl k msgs # rs2)"
  shows "reachable A M (last (d # send_loop wa cl clock camp k msgs d),
                        rs1 @ Sending camp cl (k + length msgs) [] # rs2)"
  using assms
proof (induction msgs arbitrary: d k)
  case Nil
  then show ?case by simp
next
  case (Cons m ms)
  from Cons.prems
  have "reachable A M (send_one wa cl clock camp k m d, rs1 @ Sending camp cl (Suc k) ms # rs2)"
    by (rule reachable.dispatch_iteration)
  then have "reachable A M
      (last (send_one wa cl clock camp k m d
             # send_loop wa cl clock camp (Suc k) ms (send_one wa cl clock camp k m d)),
       rs1 @ Sending camp cl (Suc k + length ms) [] # rs2)"
    by (rule Cons.IH)
  then show ?case
    by (simp only: loop_end_Cons) simp
qed

lemma reachable_dispatch:
  assumes r: "reachable A M (d, rs)" and may: "M rs cid" and camp: "find_campaign d cid = Some camp"
  shows "reachable A M (committed d (send_campaign_messages wa clock d cid tok pid), rs)"
proof -
  let ?d1 = "write_campaign cid (\<lambda>c. c\<lparr>c_status := ''sending'', c_sent_at := Some (clock 0)\<rparr>) d"
  have q: "query_campaign d cid = Inr (Some camp)"
    using camp by (simp add: query_campaign_def)
  have cid: "c_id camp = cid" using camp by (rule find_campaign_id)
  from r may q have begun: "reachable A M (?d1, rs @ [Started camp tok pid])"
    by (rule reachable.dispatch_begun)
  show ?thesis
  proof (cases "get_whatsapp_client tok pid")
    case (Inl e)
    from begun Inl have "reachable A M (?d1, rs @ [])"
      by (rule reachable.dispatch_aborted)
    moreover have "committed d (send_campaign_messages wa clock d cid tok pid) = ?d1"
      by (simp add: committed_def send_campaign_messages_def q Inl)
    ultimately show ?thesis by simp
  next
    case (Inr cl)
    let ?commits = "send_loop wa cl clock camp 0 (queued_of cid ?d1) ?d1"
    let ?d2 = "last (?d1 # ?commits)"
    from begun Inr have "reachable A M (?d1, rs @ Sending camp cl 0 (queued_of (c_id camp) ?d1) # [])"
      by (rule reachable.dispatch_snapshot)
    then have "reachable A M (?d1, rs @ Sending camp cl 0 (queued_of cid ?d1) # [])"
      by (simp only: cid)
    then have "reachable A M (?d2, rs @ Sending camp cl (0 + length (queued_of cid ?d1)) [] # [])"
      by (rule reachable_loop)
    then have "reachable A M (write_campaign (c_id camp) (\<lambda>c. c\<lparr>c_status := ''sent''\<rparr>) ?d2, rs @ [])"
      by (rule reachable.dispatch_ended)
    moreover have "committed d (send_campaign_messages wa clock d cid tok pid) =
        write_campaign cid (\<lambda>c. c\<lparr>c_status := ''sent''\<rparr>) ?d2"
      by (simp add: committed_def send_campaign_messages_def q Inr Let_def)
    ultimately show ?thesis by (simp add: cid)
  qed
qed

lemma reachable_db2:
  assumes "M [] 1"
  shows "reachable A M (db2, [])"
proof -
  have "reachable A M (db0, [])"
    by (rule reachable.start) (simp_all add: db0_def)
  moreover have "create_campaign_and_queue 10 db0 req0 =
      Inr (db1, \<lparr>campaign_id = 1, message = ''Campaign created and queued.'',
                 total_recipients = 2, queued_count = 2, dispatch_started = False\<rparr>, None)"
    by code_simp
  ultimately have "reachable A M (db1, [])"
    by (rule reachable.created)
  moreover have "find_campaign db1 1 = Some (hd (campaigns db1))"
    by code_simp
  ultimately show ?thesis
    unfolding db2_def using assms by (intro reachable_dispatch)
qed




end
